theory Spec2Isabelle
  imports Main "HOL-Library.AList" "HOL-Library.Multiset"
begin

section \<open>Data model of \<open>server/game_server.py\<close>\<close>

text \<open>
  The server keeps two dictionaries: \<open>games\<close> (game id to game record) and
  \<open>connections\<close> (websocket to game id and player name). A game record is a Python
  dict with the keys \<open>players\<close>, \<open>state\<close>, \<open>host\<close>, \<open>current_question\<close>, \<open>scores\<close>,
  \<open>question_index\<close> and \<open>questions\<close>. The \<open>players\<close> and \<open>scores\<close> dicts are iterated
  (broadcast order, \<open>max\<close> over the items), so they are association lists in insertion
  order: \<open>d[k] = v\<close> is \<open>AList.update\<close> (in place for a present key, appended
  otherwise) and \<open>del d[k]\<close> is \<open>AList.delete\<close>. Python integers are \<open>int\<close>.
  The \<open>state\<close> key only ever holds one of the strings \<open>lobby\<close>, \<open>playing\<close>, \<open>finished\<close>:
  the datatype \<open>lifecycle\<close>. The key \<open>term\<close> of a question is the field \<open>qterm\<close>.
\<close>

type_synonym game_id = string
type_synonym player_name = string
type_synonym ws = nat

record quiz_item =
  qterm :: string
  meaning :: string
  distractors :: "string list"
  difficulty :: string

record player =
  websocket :: ws
  ready :: bool

datatype lifecycle = Lobby | Playing | Finished

record game =
  players :: "(player_name \<times> player) list"
  state :: lifecycle
  host :: player_name
  current_question :: "quiz_item option"
  scores :: "(player_name \<times> int) list"
  question_index :: nat
  questions :: "quiz_item list"

text \<open>Outbound messages, by their \<open>type\<close> field.\<close>

datatype message =
    GameState "(player_name \<times> bool) list" "(player_name \<times> int) list" lifecycle player_name
  | NewQuestion string "string list" nat nat
  | AnswerResult string bool string
  | GameOver "(player_name \<times> int) list" "player_name option"
  | PlayerLeft player_name

text \<open>
  Inbound frames after \<open>json.loads\<close>: the frame does not parse, or it parses to a value
  that has no \<open>get\<close> (both raise inside \<open>handle_message\<close>), or it is an object, of which
  the handler reads \<open>data.get('action')\<close> and \<open>data.get('answer')\<close>. A missing key reads as
  \<open>None\<close> (\<open>JNull\<close>); the handler only ever compares these values with strings, so every
  value that is not a string is \<open>JOther\<close>.
\<close>

datatype jval = JNull | JStr string | JOther

datatype payload = Unparsable | NotObject | Obj jval jval

datatype error = KeyError | JSONDecodeError | AttributeError | RuntimeError

text \<open>
  Coroutines suspended in \<open>asyncio.sleep\<close>: \<open>question_timeout\<close> in its first sleep (20)
  or in its second sleep (3), and \<open>handle_answer\<close> in its sleep (3); the latter runs inside
  the message loop of one connection, which reads no further frame until it returns.
\<close>

datatype task = TimeoutWake game_id | TimeoutAdvance game_id | AnswerAdvance ws game_id

text \<open>
  The server state: the two dictionaries of \<open>GameServer\<close>, and the environment the code
  acts on: the websockets whose \<open>closed\<close> attribute is set, the sleeping coroutines with
  the time each is due, the clock, every \<open>websocket.send\<close> call made so far, and the
  stream the \<open>random\<close> module draws from with the number of draws taken.
\<close>

record server =
  games :: "game_id \<rightharpoonup> game"
  connections :: "ws \<rightharpoonup> game_id \<times> player_name"
  closed :: "ws set"
  pending :: "(nat \<times> task) list"
  now :: nat
  outbox :: "(ws \<times> message) list"
  entropy :: "nat \<Rightarrow> nat"
  draws :: nat

text \<open>
  A call either returns or raises; a raise leaves the state as mutated so far.
\<close>

datatype outcome = Ok server | Raised error server

fun settle :: "outcome \<Rightarrow> server" where
  "settle (Ok s) = s"
| "settle (Raised e s) = s"

definition init_server :: "(nat \<Rightarrow> nat) \<Rightarrow> server" where
  "init_server ent =
     \<lparr>games = Map.empty, connections = Map.empty, closed = {}, pending = [], now = 0,
      outbox = [], entropy = ent, draws = 0\<rparr>"

section \<open>The operations\<close>

definition load_questions :: "quiz_item list" where
  "load_questions =
     [\<lparr>qterm = ''awe'', meaning = ''friendly greeting; hey/what's up'',
       distractors = [''goodbye'', ''please'', ''thank you''], difficulty = ''easy''\<rparr>,
      \<lparr>qterm = ''braai'', meaning = ''barbecue; cook meat over coals'',
       distractors = [''bake bread'', ''stir-fry veggies'', ''drink tea''], difficulty = ''easy''\<rparr>,
      \<lparr>qterm = ''howzit'', meaning = ''hello; how are you?'',
       distractors = [''goodbye'', ''please'', ''congrats''], difficulty = ''easy''\<rparr>]"

text \<open>\<open>path.split('/')\<close>: one part per separator, plus one.\<close>

fun split_on :: "char \<Rightarrow> string \<Rightarrow> string list" where
  "split_on c [] = [[]]"
| "split_on c (x # xs) =
     (if x = c then [] # split_on c xs
      else (case split_on c xs of [] \<Rightarrow> [[x]] | w # rest \<Rightarrow> (x # w) # rest))"

text \<open>
  \<open>broadcast\<close>: one send per player, in the order of the players dict, to every websocket
  that is neither excluded nor closed. A failing send is swallowed; the outbox records
  the send calls. This is the loop as it runs when none of its sends suspends: then no
  other coroutine runs in between, the players dict is the same throughout, and the
  call does not raise. The loop with sends that suspend is \<open>send_from\<close> below, of which
  this is the case where nothing stalls (lemma \<open>send_from_free\<close>).
\<close>

definition broadcast :: "message \<Rightarrow> game_id \<Rightarrow> ws list \<Rightarrow> server \<Rightarrow> server" where
  "broadcast msg gid exclude s =
     (case games s gid of
        None \<Rightarrow> s
      | Some game \<Rightarrow>
          s\<lparr>outbox := outbox s @
               map (\<lambda>pd. (websocket (snd pd), msg))
                 (filter (\<lambda>pd. websocket (snd pd) \<notin> set exclude \<and> websocket (snd pd) \<notin> closed s)
                    (players game))\<rparr>)"

definition broadcast_game_state :: "game_id \<Rightarrow> server \<Rightarrow> outcome" where
  "broadcast_game_state gid s =
     (case games s gid of
        None \<Rightarrow> Raised KeyError s
      | Some game \<Rightarrow>
          Ok (broadcast
                (GameState (map (\<lambda>pd. (fst pd, ready (snd pd))) (players game))
                   (scores game) (state game) (host game))
                gid [] s))"

text \<open>
  \<open>max(items, key=lambda x: x[1])\<close>: Python keeps the first item and replaces it only by
  an item whose key is strictly greater.
\<close>

definition py_max_by :: "('a \<Rightarrow> int) \<Rightarrow> 'a \<Rightarrow> 'a list \<Rightarrow> 'a" where
  "py_max_by key x xs = fold (\<lambda>y best. if key y > key best then y else best) xs x"

definition winner :: "(player_name \<times> int) list \<Rightarrow> player_name option" where
  "winner sc = (case sc of [] \<Rightarrow> None | x # xs \<Rightarrow> Some (fst (py_max_by snd x xs)))"

definition end_game :: "game_id \<Rightarrow> server \<Rightarrow> outcome" where
  "end_game gid s =
     (case games s gid of
        None \<Rightarrow> Raised KeyError s
      | Some game \<Rightarrow>
          (let game' = game\<lparr>state := Finished\<rparr>;
               s1 = s\<lparr>games := (games s)(gid \<mapsto> game')\<rparr>
           in Ok (broadcast (GameOver (scores game') (winner (scores game'))) gid [] s1)))"

text \<open>
  \<open>random.shuffle\<close>: for \<open>i\<close> from \<open>len(x) - 1\<close> down to 1, draw \<open>j\<close> below \<open>i + 1\<close> and swap
  \<open>x[i]\<close> with \<open>x[j]\<close>. The draws come from the entropy stream of the state.
\<close>

fun shuffle_loop :: "nat \<Rightarrow> 'a list \<Rightarrow> (nat \<Rightarrow> nat) \<Rightarrow> nat \<Rightarrow> 'a list" where
  "shuffle_loop 0 x ent d = x"
| "shuffle_loop (Suc k) x ent d =
     (let j = ent d mod (Suc k + 1)
      in shuffle_loop k (x[Suc k := x ! j, j := x ! Suc k]) ent (d + 1))"

definition shuffle :: "'a list \<Rightarrow> server \<Rightarrow> 'a list \<times> server" where
  "shuffle x s =
     (shuffle_loop (length x - 1) x (entropy s) (draws s),
      s\<lparr>draws := draws s + (length x - 1)\<rparr>)"

definition next_question :: "game_id \<Rightarrow> server \<Rightarrow> outcome" where
  "next_question gid s =
     (case games s gid of
        None \<Rightarrow> Raised KeyError s
      | Some game \<Rightarrow>
          if question_index game \<ge> length (questions game) then end_game gid s
          else
            (let question = questions game ! question_index game;
                 game' = game\<lparr>current_question := Some question,
                              question_index := question_index game + 1\<rparr>;
                 s1 = s\<lparr>games := (games s)(gid \<mapsto> game')\<rparr>;
                 (choices, s2) = shuffle (meaning question # take 3 (distractors question)) s1;
                 s3 = broadcast (NewQuestion (qterm question) choices 20 (question_index game'))
                        gid [] s2
             in Ok (s3\<lparr>pending := pending s3 @ [(now s3 + 20, TimeoutWake gid)]\<rparr>)))"

text \<open>
  \<open>for player in game['scores']: game['scores'][player] = 0\<close>.
\<close>

definition reset_scores :: "(player_name \<times> int) list \<Rightarrow> (player_name \<times> int) list" where
  "reset_scores sc = fold (\<lambda>p acc. AList.update p 0 acc) (map fst sc) sc"

definition start_game :: "game_id \<Rightarrow> server \<Rightarrow> outcome" where
  "start_game gid s =
     (case games s gid of
        None \<Rightarrow> Raised KeyError s
      | Some game \<Rightarrow>
          next_question gid
            (s\<lparr>games := (games s)(gid \<mapsto>
                 game\<lparr>state := Playing, question_index := 0,
                      scores := reset_scores (scores game)\<rparr>)\<rparr>))"

definition reset_game :: "game_id \<Rightarrow> server \<Rightarrow> outcome" where
  "reset_game gid s =
     (case games s gid of
        None \<Rightarrow> Raised KeyError s
      | Some game \<Rightarrow>
          broadcast_game_state gid
            (s\<lparr>games := (games s)(gid \<mapsto>
                 game\<lparr>state := Lobby, current_question := None, question_index := 0,
                      scores := reset_scores (scores game)\<rparr>)\<rparr>))"

text \<open>
  \<open>question_timeout\<close> after its first sleep: the guard, the synthetic result, and the
  second sleep, after which \<open>next_question\<close> runs (task \<open>TimeoutAdvance\<close>).
\<close>

definition question_timeout :: "game_id \<Rightarrow> server \<Rightarrow> server" where
  "question_timeout gid s =
     (case games s gid of
        None \<Rightarrow> s
      | Some game \<Rightarrow>
          (case current_question game of
             None \<Rightarrow> s
           | Some question \<Rightarrow>
               if state game = Playing then
                 (let s1 = broadcast (AnswerResult ''System'' False (meaning question)) gid [] s
                  in s1\<lparr>pending := pending s1 @ [(now s1 + 3, TimeoutAdvance gid)]\<rparr>)
               else s))"

text \<open>
  \<open>handle_answer\<close> up to its sleep; \<open>w\<close> is the connection whose message loop runs the
  call and then sleeps (task \<open>AnswerAdvance\<close>, after which \<open>next_question\<close> runs).
  \<open>game['scores'][player_name] += 10\<close> raises KeyError when the name has no score.
\<close>

definition handle_answer :: "ws \<Rightarrow> game_id \<Rightarrow> player_name \<Rightarrow> jval \<Rightarrow> server \<Rightarrow> outcome" where
  "handle_answer w gid player_name answer s =
     (case games s gid of
        None \<Rightarrow> Raised KeyError s
      | Some game \<Rightarrow>
          (case current_question game of
             None \<Rightarrow> Ok s
           | Some question \<Rightarrow>
               (let is_correct = (answer = JStr (meaning question)) in
                if is_correct \<and> map_of (scores game) player_name = None then Raised KeyError s
                else
                  (let game' =
                         (if is_correct
                          then game\<lparr>scores := AList.update player_name
                                  (the (map_of (scores game) player_name) + 10) (scores game)\<rparr>
                          else game);
                       s1 = s\<lparr>games := (games s)(gid \<mapsto> game')\<rparr>;
                       s2 = broadcast (AnswerResult player_name is_correct (meaning question))
                              gid [] s1
                   in Ok (s2\<lparr>pending := pending s2 @ [(now s2 + 3, AnswerAdvance w gid)]\<rparr>)))))"

text \<open>
  \<open>handle_message\<close>: the body inside \<open>try\<close>, then the \<open>except Exception\<close> that swallows
  every raise.
\<close>

definition handle_message_body ::
  "ws \<Rightarrow> payload \<Rightarrow> game_id \<Rightarrow> player_name \<Rightarrow> server \<Rightarrow> outcome" where
  "handle_message_body w pl gid player_name s =
     (case pl of
        Unparsable \<Rightarrow> Raised JSONDecodeError s
      | NotObject \<Rightarrow> Raised AttributeError s
      | Obj action answer \<Rightarrow>
          (case games s gid of
             None \<Rightarrow> Ok s
           | Some game \<Rightarrow>
               if action = JStr ''join'' then
                 (case map_of (players game) player_name of
                    None \<Rightarrow> Raised KeyError s
                  | Some pd \<Rightarrow>
                      broadcast_game_state gid
                        (s\<lparr>games := (games s)(gid \<mapsto>
                             game\<lparr>players :=
                               AList.update player_name (pd\<lparr>ready := True\<rparr>) (players game)\<rparr>)\<rparr>))
               else if action = JStr ''start_game'' then
                 (if player_name = host game then start_game gid s else Ok s)
               else if action = JStr ''submit_answer'' then
                 handle_answer w gid player_name answer s
               else if action = JStr ''play_again'' then
                 (if player_name = host game then reset_game gid s else Ok s)
               else Ok s))"

definition handle_message :: "ws \<Rightarrow> payload \<Rightarrow> game_id \<Rightarrow> player_name \<Rightarrow> server \<Rightarrow> server" where
  "handle_message w pl gid player_name s = settle (handle_message_body w pl gid player_name s)"

definition handle_disconnect :: "ws \<Rightarrow> server \<Rightarrow> outcome" where
  "handle_disconnect w s =
     (case connections s w of
        None \<Rightarrow> Ok s
      | Some (gid, player_name) \<Rightarrow>
          (case games s gid of
             None \<Rightarrow> Ok (s\<lparr>connections := (connections s)(w := None)\<rparr>)
           | Some game \<Rightarrow>
               if player_name \<in> fst ` set (players game) then
                 (let game1 = game\<lparr>players := AList.delete player_name (players game)\<rparr>;
                      s1 = s\<lparr>games := (games s)(gid \<mapsto> game1)\<rparr>
                  in if player_name \<notin> fst ` set (scores game1) then Raised KeyError s1
                     else
                       (let game2 = game1\<lparr>scores := AList.delete player_name (scores game1)\<rparr>;
                            s2 = s1\<lparr>games := (games s1)(gid \<mapsto> game2)\<rparr>;
                            s3 = broadcast (PlayerLeft player_name) gid [w] s2
                        in case broadcast_game_state gid s3 of
                             Raised e s4 \<Rightarrow> Raised e s4
                           | Ok s4 \<Rightarrow> Ok (s4\<lparr>connections := (connections s4)(w := None)\<rparr>)))
               else Ok (s\<lparr>connections := (connections s)(w := None)\<rparr>)))"

text \<open>
  \<open>handle_connection\<close> up to its message loop. On a short path the websocket is closed
  and the \<open>finally\<close> clause runs \<open>handle_disconnect\<close> at once, as it does after a raise.
\<close>

definition handle_connection :: "ws \<Rightarrow> string \<Rightarrow> server \<Rightarrow> outcome" where
  "handle_connection w path s =
     (let path_parts = split_on CHR ''/'' path in
      if length path_parts < 4 then handle_disconnect w (s\<lparr>closed := insert w (closed s)\<rparr>)
      else
        (let gid = path_parts ! 2;
             player_name = path_parts ! 3;
             game = (case games s gid of
                       None \<Rightarrow> \<lparr>players = [], state = Lobby, host = player_name,
                                 current_question = None, scores = [], question_index = 0,
                                 questions = load_questions\<rparr>
                     | Some g \<Rightarrow> g);
             game' = game\<lparr>players := AList.update player_name
                                        \<lparr>websocket = w, ready = False\<rparr> (players game),
                          scores := AList.update player_name 0 (scores game)\<rparr>;
             s1 = s\<lparr>games := (games s)(gid \<mapsto> game'),
                    connections := (connections s)(w \<mapsto> (gid, player_name))\<rparr>
         in case broadcast_game_state gid s1 of
              Ok s2 \<Rightarrow> Ok s2
            | Raised e s2 \<Rightarrow> handle_disconnect w s2))"

section \<open>The event loop\<close>

text \<open>
  The coroutines run one at a time and yield only where they wait: for the next frame,
  or in a sleep. An event is one such resumption, stamped with its time:
  a new connection, a frame read by the message loop of a connection, the transport of
  a connection closing, the message loop of a connection ending (which runs the
  \<open>finally\<close> clause), or the sleeping coroutine at position \<open>k\<close> waking up.
  A message loop that sleeps in \<open>handle_answer\<close> neither reads a frame nor ends; a
  sleeper wakes only when no other sleeper is due earlier, and no input is processed
  at a time later than a due sleeper.
\<close>

datatype event =
    Connect nat ws string
  | Recv nat ws payload
  | Drop nat ws
  | Close nat ws
  | Fire nat

definition time_ok :: "nat \<Rightarrow> server \<Rightarrow> bool" where
  "time_ok t s = (now s \<le> t \<and> list_all (\<lambda>p. t \<le> fst p) (pending s))"

definition busy :: "ws \<Rightarrow> server \<Rightarrow> bool" where
  "busy w s = list_ex (\<lambda>p. case snd p of AnswerAdvance w' gid \<Rightarrow> w' = w | _ \<Rightarrow> False) (pending s)"

fun run_task :: "task \<Rightarrow> server \<Rightarrow> server" where
  "run_task (TimeoutWake gid) s = question_timeout gid s"
| "run_task (TimeoutAdvance gid) s = settle (next_question gid s)"
| "run_task (AnswerAdvance w gid) s = settle (next_question gid s)"

fun step :: "event \<Rightarrow> server \<Rightarrow> server option" where
  "step (Connect t w path) s =
     (if time_ok t s \<and> connections s w = None \<and> w \<notin> closed s
      then Some (settle (handle_connection w path (s\<lparr>now := t\<rparr>)))
      else None)"
| "step (Recv t w pl) s =
     (case connections s w of
        None \<Rightarrow> None
      | Some (gid, player_name) \<Rightarrow>
          if time_ok t s \<and> \<not> busy w s
          then Some (handle_message w pl gid player_name (s\<lparr>now := t\<rparr>))
          else None)"
| "step (Drop t w) s =
     (if time_ok t s \<and> connections s w \<noteq> None
      then Some (s\<lparr>now := t, closed := insert w (closed s)\<rparr>)
      else None)"
| "step (Close t w) s =
     (if time_ok t s \<and> connections s w \<noteq> None \<and> \<not> busy w s
      then Some (settle (handle_disconnect w (s\<lparr>now := t, closed := insert w (closed s)\<rparr>)))
      else None)"
| "step (Fire k) s =
     (if k < length (pending s) \<and> list_all (\<lambda>p. fst (pending s ! k) \<le> fst p) (pending s)
      then Some (run_task (snd (pending s ! k))
                   (s\<lparr>now := max (now s) (fst (pending s ! k)),
                      pending := take k (pending s) @ drop (Suc k) (pending s)\<rparr>))
      else None)"

fun run :: "event list \<Rightarrow> server \<Rightarrow> server option" where
  "run [] s = Some s"
| "run (e # es) s = (case step e s of None \<Rightarrow> None | Some s' \<Rightarrow> run es s')"

section \<open>Sends that suspend\<close>

text \<open>
  \<open>await websocket.send(...)\<close> is a suspension point: when a send waits, other coroutines
  run before the loop of \<open>broadcast\<close> goes on. The loop iterates over the players dict
  itself, and a \<open>game_state\<close> or \<open>game_over\<close> message holds the scores dict itself, which
  \<open>json.dumps\<close> reads at every send (\<open>render\<close>): what the other coroutines do to the two
  dicts shows in the rest of the loop.
\<close>

definition render :: "message \<Rightarrow> game \<Rightarrow> message" where
  "render msg game =
     (case msg of
        GameState ps sc st h \<Rightarrow> GameState ps (scores game) st h
      | GameOver sc win \<Rightarrow> GameOver (scores game) win
      | _ \<Rightarrow> msg)"

text \<open>
  \<open>stalled\<close> tells which sends wait: the pairs of a websocket and a message whose send
  suspends. \<open>send_entries\<close> is the body of the loop over the entries still to come, \<open>pos\<close>
  counting the entries passed; it stops after a send that waits. \<open>send_from\<close> is the loop
  entered (at position 0) or resumed at position \<open>pos\<close>: the dict iterator raises
  RuntimeError when the dict no longer has the size it had when the loop began.
\<close>

datatype loop_result = LoopDone server | LoopSuspended nat server | LoopRaised error server

fun send_entries ::
  "(ws \<times> message) set \<Rightarrow> message \<Rightarrow> ws list \<Rightarrow> nat \<Rightarrow> (player_name \<times> player) list \<Rightarrow> server \<Rightarrow> loop_result" where
  "send_entries stalled msg exclude pos [] s = LoopDone s"
| "send_entries stalled msg exclude pos (pd # rest) s =
     (if websocket (snd pd) \<notin> set exclude \<and> websocket (snd pd) \<notin> closed s
      then (let s' = s\<lparr>outbox := outbox s @ [(websocket (snd pd), msg)]\<rparr>
            in if (websocket (snd pd), msg) \<in> stalled then LoopSuspended (pos + 1) s'
               else send_entries stalled msg exclude (pos + 1) rest s')
      else send_entries stalled msg exclude (pos + 1) rest s)"

definition send_from ::
  "(ws \<times> message) set \<Rightarrow> message \<Rightarrow> game_id \<Rightarrow> ws list \<Rightarrow> nat \<Rightarrow> nat \<Rightarrow> server \<Rightarrow> loop_result" where
  "send_from stalled msg gid exclude size0 pos s =
     (case games s gid of
        None \<Rightarrow> LoopDone s
      | Some game \<Rightarrow>
          if length (players game) \<noteq> size0 then LoopRaised RuntimeError s
          else send_entries stalled (render msg game) exclude pos (drop pos (players game)) s)"

text \<open>
  \<open>handle_disconnect\<close> with such sends. \<open>cleanup_start\<close> runs it to its first waiting send
  or to its end; \<open>cleanup_resume\<close> goes on from a waiting send, in the state the other
  coroutines have left. A suspension records the loop it is in (that of \<open>player_left\<close> or
  that of \<open>game_state\<close>), the position, the size of the dict when the loop began, and the
  roster (names and websockets, in order) at the suspension. When the dict has the same
  size at the resumption but another roster, the position no longer tells which entries
  are still to come, and no result is given (\<open>Unsettled\<close>).
\<close>

datatype cleanup_point =
    AtLeft player_name game_id nat nat "(player_name \<times> ws) list"
  | AtState message game_id nat nat "(player_name \<times> ws) list"

datatype cleanup = Returned outcome | Suspended cleanup_point server | Unsettled server

definition roster :: "server \<Rightarrow> game_id \<Rightarrow> (player_name \<times> ws) list" where
  "roster s gid =
     (case games s gid of None \<Rightarrow> [] | Some game \<Rightarrow> map (\<lambda>pd. (fst pd, websocket (snd pd))) (players game))"

definition cleanup_state_loop ::
  "(ws \<times> message) set \<Rightarrow> ws \<Rightarrow> message \<Rightarrow> game_id \<Rightarrow> nat \<Rightarrow> nat \<Rightarrow> server \<Rightarrow> cleanup" where
  "cleanup_state_loop stalled w msg gid size0 pos s =
     (case send_from stalled msg gid [] size0 pos s of
        LoopRaised e s' \<Rightarrow> Returned (Raised e s')
      | LoopSuspended p s' \<Rightarrow> Suspended (AtState msg gid p size0 (roster s' gid)) s'
      | LoopDone s' \<Rightarrow>
          (case connections s' w of
             None \<Rightarrow> Returned (Raised KeyError s')
           | Some reg \<Rightarrow> Returned (Ok (s'\<lparr>connections := (connections s')(w := None)\<rparr>))))"

definition cleanup_left_loop ::
  "(ws \<times> message) set \<Rightarrow> ws \<Rightarrow> player_name \<Rightarrow> game_id \<Rightarrow> nat \<Rightarrow> nat \<Rightarrow> server \<Rightarrow> cleanup" where
  "cleanup_left_loop stalled w player_name gid size0 pos s =
     (case send_from stalled (PlayerLeft player_name) gid [w] size0 pos s of
        LoopRaised e s' \<Rightarrow> Returned (Raised e s')
      | LoopSuspended p s' \<Rightarrow> Suspended (AtLeft player_name gid p size0 (roster s' gid)) s'
      | LoopDone s' \<Rightarrow>
          (case games s' gid of
             None \<Rightarrow> Returned (Raised KeyError s')
           | Some game \<Rightarrow>
               cleanup_state_loop stalled w
                 (GameState (map (\<lambda>pd. (fst pd, ready (snd pd))) (players game))
                    (scores game) (state game) (host game))
                 gid (length (players game)) 0 s'))"

definition cleanup_start :: "(ws \<times> message) set \<Rightarrow> ws \<Rightarrow> server \<Rightarrow> cleanup" where
  "cleanup_start stalled w s =
     (case connections s w of
        None \<Rightarrow> Returned (Ok s)
      | Some (gid, player_name) \<Rightarrow>
          (case games s gid of
             None \<Rightarrow> Returned (Ok (s\<lparr>connections := (connections s)(w := None)\<rparr>))
           | Some game \<Rightarrow>
               if player_name \<in> fst ` set (players game) then
                 (let game1 = game\<lparr>players := AList.delete player_name (players game)\<rparr>;
                      s1 = s\<lparr>games := (games s)(gid \<mapsto> game1)\<rparr>
                  in if player_name \<notin> fst ` set (scores game1) then Returned (Raised KeyError s1)
                     else
                       (let game2 = game1\<lparr>scores := AList.delete player_name (scores game1)\<rparr>;
                            s2 = s1\<lparr>games := (games s1)(gid \<mapsto> game2)\<rparr>
                        in cleanup_left_loop stalled w player_name gid (length (players game2)) 0 s2))
               else Returned (Ok (s\<lparr>connections := (connections s)(w := None)\<rparr>))))"

definition cleanup_resume :: "(ws \<times> message) set \<Rightarrow> ws \<Rightarrow> cleanup_point \<Rightarrow> server \<Rightarrow> cleanup" where
  "cleanup_resume stalled w point s =
     (case point of
        AtLeft player_name gid pos size0 snap \<Rightarrow>
          if length (roster s gid) = size0 \<and> roster s gid \<noteq> snap then Unsettled s
          else cleanup_left_loop stalled w player_name gid size0 pos s
      | AtState msg gid pos size0 snap \<Rightarrow>
          if length (roster s gid) = size0 \<and> roster s gid \<noteq> snap then Unsettled s
          else cleanup_state_loop stalled w msg gid size0 pos s)"

fun state_of :: "cleanup \<Rightarrow> server" where
  "state_of (Returned oc) = settle oc"
| "state_of (Suspended p s) = s"
| "state_of (Unsettled s) = s"

section \<open>Reachable states and their consistency\<close>

text \<open>
  What every state reached from the empty server satisfies, game by game: the scores
  dict has the keys of the players dict, in the same order; the keys are distinct (the
  lists stand for dicts); the question bank is the one \<open>load_questions\<close> returns; and
  every player entry holds a websocket that the registry maps to this game and this name.
\<close>

definition game_ok :: "(ws \<rightharpoonup> game_id \<times> player_name) \<Rightarrow> game_id \<Rightarrow> game \<Rightarrow> bool" where
  "game_ok conns gid g =
     (map fst (scores g) = map fst (players g) \<and>
      distinct (map fst (players g)) \<and>
      questions g = load_questions \<and>
      (\<forall>pd \<in> set (players g). conns (websocket (snd pd)) = Some (gid, fst pd)))"

definition consistent :: "server \<Rightarrow> bool" where
  "consistent s = (\<forall>gid g. games s gid = Some g \<longrightarrow> game_ok (connections s) gid g)"

text \<open>A stream of draws for concrete runs, and what a run from the empty server leaves.\<close>

definition zeros :: "nat \<Rightarrow> nat" where
  "zeros n = 0"

definition game_after :: "event list \<Rightarrow> game_id \<Rightarrow> game option" where
  "game_after es gid = (case run es (init_server zeros) of None \<Rightarrow> None | Some s \<Rightarrow> games s gid)"

definition outbox_after :: "event list \<Rightarrow> (ws \<times> message) list option" where
  "outbox_after es = map_option outbox (run es (init_server zeros))"

text \<open>Concrete runs.\<close>

definition roster_trace :: "event list" where
  "roster_trace =
     [Connect 0 1 ''/ws/G/Alice'', Connect 1 2 ''/ws/G/Bob'',
      Recv 2 1 (Obj (JStr ''start_game'') JNull), Close 3 1]"

definition final_game :: game where
  "final_game =
     \<lparr>players = [(''Alice'', \<lparr>websocket = 1, ready = True\<rparr>),
                 (''Bob'', \<lparr>websocket = 2, ready = True\<rparr>),
                 (''Carol'', \<lparr>websocket = 3, ready = False\<rparr>)],
      state = Playing, host = ''Alice'', current_question = Some (load_questions ! 2),
      scores = [(''Alice'', 10), (''Bob'', 20), (''Carol'', 20)],
      question_index = 3, questions = load_questions\<rparr>"

definition final_server :: server where
  "final_server =
     \<lparr>games = [''G'' \<mapsto> final_game],
      connections = [1 \<mapsto> (''G'', ''Alice''), 2 \<mapsto> (''G'', ''Bob''), 3 \<mapsto> (''G'', ''Carol'')],
      closed = {}, pending = [(63, AnswerAdvance 2 ''G''), (80, TimeoutWake ''G'')], now = 60,
      outbox = [], entropy = zeros, draws = 0\<rparr>"

definition round_game :: game where
  "round_game =
     \<lparr>players = [(''Alice'', \<lparr>websocket = 1, ready = True\<rparr>),
                 (''Bob'', \<lparr>websocket = 2, ready = True\<rparr>)],
      state = Playing, host = ''Alice'', current_question = Some (load_questions ! 1),
      scores = [(''Alice'', 10), (''Bob'', 0)],
      question_index = 2, questions = load_questions\<rparr>"

definition round_server :: server where
  "round_server =
     \<lparr>games = [''G'' \<mapsto> round_game],
      connections = [1 \<mapsto> (''G'', ''Alice''), 2 \<mapsto> (''G'', ''Bob'')],
      closed = {}, pending = [(28, TimeoutWake ''G'')], now = 10,
      outbox = [], entropy = zeros, draws = 3\<rparr>"

definition scored_trace :: "event list" where
  "scored_trace =
     [Connect 0 1 ''/ws/G/Alice'', Connect 0 2 ''/ws/G/Bob'',
      Recv 1 1 (Obj (JStr ''start_game'') JNull),
      Recv 5 2 (Obj (JStr ''submit_answer'') (JStr ''friendly greeting; hey/what's up''))]"

definition scored_server :: server where
  "scored_server = the (run scored_trace (init_server zeros))"





text \<open>
  Three players in one game. The message loop of Alice's connection (websocket 1) ends
  at time 3 and the send of \<open>player_left\<close> to Bob waits; while it waits, the message loop
  of Carol's connection ends at time 4.
\<close>

definition trio_trace :: "event list" where
  "trio_trace =
     [Connect 0 1 ''/ws/G/Alice'', Connect 1 2 ''/ws/G/Bob'', Connect 2 3 ''/ws/G/Carol'']"

definition trio_server :: server where
  "trio_server = the (run trio_trace (init_server zeros))"

definition stalled_cleanup :: cleanup where
  "stalled_cleanup =
     cleanup_start {(2, PlayerLeft ''Alice'')} 1
       (trio_server\<lparr>now := 3, closed := insert 1 (closed trio_server)\<rparr>)"

definition carol_gone :: server where
  "carol_gone = the (step (Close 4 3) (state_of stalled_cleanup))"

definition inbox_after :: "event list \<Rightarrow> ws \<Rightarrow> message list option" where
  "inbox_after es w = map_option (\<lambda>ob. map snd (filter (\<lambda>p. fst p = w) ob)) (outbox_after es)"

definition pending_after :: "event list \<Rightarrow> (nat \<times> task) list option" where
  "pending_after es = map_option pending (run es (init_server zeros))"

text \<open>
  Round 1 starts at time 0; Bob answers at 18; the timeout of round 1 wakes at 20; the
  sleep of the answer ends at 21 and the second sleep of the timeout at 23.
\<close>

definition race_prefix :: "event list" where
  "race_prefix =
     [Connect 0 1 ''/ws/G/Alice'', Connect 0 2 ''/ws/G/Bob'',
      Recv 0 1 (Obj (JStr ''start_game'') JNull),
      Recv 18 2 (Obj (JStr ''submit_answer'') (JStr ''friendly greeting; hey/what's up''))]"

definition race_trace :: "event list" where
  "race_trace = race_prefix @ [Fire 0, Fire 0, Fire 0]"

text \<open>
  Round 1 starts at time 1; Alice answers at 5 and Bob at 6; the sleeps of the two
  answers end at 8 and at 9.
\<close>

definition first_answer_trace :: "event list" where
  "first_answer_trace =
     [Connect 0 1 ''/ws/G/Alice'', Connect 0 2 ''/ws/G/Bob'',
      Recv 1 1 (Obj (JStr ''start_game'') JNull),
      Recv 5 1 (Obj (JStr ''submit_answer'') (JStr ''friendly greeting; hey/what's up''))]"

definition second_answer_trace :: "event list" where
  "second_answer_trace =
     first_answer_trace @
     [Recv 6 2 (Obj (JStr ''submit_answer'') (JStr ''friendly greeting; hey/what's up''))]"

definition two_advances_trace :: "event list" where
  "two_advances_trace = second_answer_trace @ [Fire 1, Fire 1]"

text \<open>
  A game of one player in which no answer is given: each of the three rounds ends by
  its timeout, and the advance after the third round ends the game at time 69.
\<close>

definition finish_trace :: "event list" where
  "finish_trace =
     [Connect 0 1 ''/ws/G/Alice'', Recv 0 1 (Obj (JStr ''start_game'') JNull),
      Fire 0, Fire 0, Fire 0, Fire 0, Fire 0, Fire 0]"

definition late_answer_trace :: "event list" where
  "late_answer_trace =
     finish_trace @ [Recv 70 1 (Obj (JStr ''submit_answer'') (JStr ''hello; how are you?''))]"

section \<open>The invariant is kept by every operation\<close>

lemma broadcast_fields [simp]:
  "games (broadcast m gid ex s) = games s"
  "connections (broadcast m gid ex s) = connections s"
  "closed (broadcast m gid ex s) = closed s"
  "pending (broadcast m gid ex s) = pending s"
  "now (broadcast m gid ex s) = now s"
  "entropy (broadcast m gid ex s) = entropy s"
  "draws (broadcast m gid ex s) = draws s"
  by (simp_all add: broadcast_def split: option.splits)

lemma consistent_cong:
  "games s' = games s \<Longrightarrow> connections s' = connections s \<Longrightarrow> consistent s' = consistent s"
  by (simp add: consistent_def)

lemma consistent_broadcast [simp]: "consistent (broadcast m gid ex s) = consistent s"
  by (rule consistent_cong) simp_all

lemma consistentI2:
  "consistent s0 \<Longrightarrow> games s' = games s0 \<Longrightarrow> connections s' = connections s0 \<Longrightarrow> consistent s'"
  by (simp add: consistent_def)

lemma game_ok_update:
  assumes ok: "game_ok conns gid g"
    and pl: "map (\<lambda>pd. (fst pd, websocket (snd pd))) (players g') =
         map (\<lambda>pd. (fst pd, websocket (snd pd))) (players g)"
    and sc: "map fst (scores g') = map fst (scores g)"
    and qs: "questions g' = questions g"
  shows "game_ok conns gid g'"
proof -
  from pl have "map fst (map (\<lambda>pd. (fst pd, websocket (snd pd))) (players g')) =
      map fst (map (\<lambda>pd. (fst pd, websocket (snd pd))) (players g))" by simp
  then have keys: "map fst (players g') = map fst (players g)" by (simp add: comp_def)
  from pl have "set (map (\<lambda>pd. (fst pd, websocket (snd pd))) (players g')) =
      set (map (\<lambda>pd. (fst pd, websocket (snd pd))) (players g))" by simp
  then have img: "(\<lambda>pd. (fst pd, websocket (snd pd))) ` set (players g') =
      (\<lambda>pd. (fst pd, websocket (snd pd))) ` set (players g)" by simp
  have reg: "conns (websocket (snd pd)) = Some (gid, fst pd)" if "pd \<in> set (players g')" for pd
  proof -
    from that have "(fst pd, websocket (snd pd)) \<in> (\<lambda>pd. (fst pd, websocket (snd pd))) ` set (players g)"
      unfolding img[symmetric] by (rule imageI)
    then obtain pd0 where "pd0 \<in> set (players g)"
      and "(fst pd, websocket (snd pd)) = (fst pd0, websocket (snd pd0))" by blast
    with ok show ?thesis by (auto simp: game_ok_def)
  qed
  show ?thesis
    using ok keys sc qs reg by (simp add: game_ok_def)
qed

lemma consistent_game_update:
  assumes c: "consistent s" and g: "games s gid = Some g"
    and pl: "map (\<lambda>pd. (fst pd, websocket (snd pd))) (players g') =
         map (\<lambda>pd. (fst pd, websocket (snd pd))) (players g)"
    and sc: "map fst (scores g') = map fst (scores g)"
    and qs: "questions g' = questions g"
  shows "consistent (s\<lparr>games := (games s)(gid \<mapsto> g')\<rparr>)"
proof -
  from c g have "game_ok (connections s) gid g" by (simp add: consistent_def)
  then have "game_ok (connections s) gid g'" using pl sc qs by (rule game_ok_update)
  with c show ?thesis by (simp add: consistent_def)
qed

lemma reset_scores_fold_keys:
  "set ks \<subseteq> fst ` set sc \<Longrightarrow>
     map fst (fold (\<lambda>p acc. AList.update p (0::int) acc) ks sc) = map fst sc"
proof (induction ks arbitrary: sc)
  case Nil
  then show ?case by simp
next
  case (Cons k ks)
  from Cons.prems have k: "k \<in> fst ` set sc" and ks: "set ks \<subseteq> fst ` set sc" by auto
  have "set ks \<subseteq> fst ` set (AList.update k 0 sc)" using ks by (auto simp: dom_update)
  then have "map fst (fold (\<lambda>p acc. AList.update p (0::int) acc) ks (AList.update k 0 sc)) =
      map fst (AList.update k 0 sc)" by (rule Cons.IH)
  also have "\<dots> = map fst sc" using k by (simp add: update_keys)
  finally show ?case by simp
qed

lemma reset_scores_keys [simp]: "map fst (reset_scores sc) = map fst sc"
  unfolding reset_scores_def by (rule reset_scores_fold_keys) simp

lemma reset_scores_fold_lookup:
  "map_of (fold (\<lambda>p acc. AList.update p (0::int) acc) ks sc) k =
     (if k \<in> set ks then Some 0 else map_of sc k)"
  by (induction ks arbitrary: sc) (auto simp: update_conv')

lemma reset_scores_lookup:
  "k \<in> fst ` set sc \<Longrightarrow> map_of (reset_scores sc) k = Some 0"
  unfolding reset_scores_def by (simp add: reset_scores_fold_lookup)

lemma shuffle_fields [simp]:
  "games (snd (shuffle x s)) = games s"
  "connections (snd (shuffle x s)) = connections s"
  "closed (snd (shuffle x s)) = closed s"
  "pending (snd (shuffle x s)) = pending s"
  "now (snd (shuffle x s)) = now s"
  "outbox (snd (shuffle x s)) = outbox s"
  by (simp_all add: shuffle_def)

lemma consistent_end_game: "consistent s \<Longrightarrow> consistent (settle (end_game gid s))"
  by (auto simp: end_game_def Let_def split: option.splits intro!: consistent_game_update)

lemma consistent_next_question: "consistent s \<Longrightarrow> consistent (settle (next_question gid s))"
proof (cases "games s gid")
  case None
  assume "consistent s" with None show ?thesis by (simp add: next_question_def)
next
  case (Some g)
  assume c: "consistent s"
  show ?thesis
  proof (cases "question_index g \<ge> length (questions g)")
    case True
    with Some c show ?thesis by (simp add: next_question_def consistent_end_game)
  next
    case False
    let ?g' = "g\<lparr>current_question := Some (questions g ! question_index g),
                  question_index := question_index g + 1\<rparr>"
    have c': "consistent (s\<lparr>games := (games s)(gid \<mapsto> ?g')\<rparr>)"
      by (rule consistent_game_update[OF c Some]) simp_all
    show ?thesis
      by (rule consistentI2[OF c'])
        (use Some False in \<open>simp_all add: next_question_def Let_def split_beta shuffle_def\<close>)
  qed
qed


lemma settle_broadcast_game_state_fields [simp]:
  "games (settle (broadcast_game_state gid s)) = games s"
  "connections (settle (broadcast_game_state gid s)) = connections s"
  by (simp_all add: broadcast_game_state_def split: option.splits)

lemma consistent_broadcast_game_state:
  "consistent s \<Longrightarrow> consistent (settle (broadcast_game_state gid s))"
  by (erule consistentI2) simp_all

lemma consistent_start_game: "consistent s \<Longrightarrow> consistent (settle (start_game gid s))"
  by (auto simp: start_game_def split: option.splits
      intro!: consistent_next_question consistent_game_update)

lemma consistent_reset_game: "consistent s \<Longrightarrow> consistent (settle (reset_game gid s))"
  by (auto simp: reset_game_def split: option.splits
      intro!: consistent_broadcast_game_state consistent_game_update)

lemma consistent_question_timeout: "consistent s \<Longrightarrow> consistent (question_timeout gid s)"
  by (erule consistentI2) (simp_all add: question_timeout_def Let_def split: option.splits)

lemma update_present_keys:
  "map_of al k = Some v \<Longrightarrow> map fst (AList.update k v' al) = map fst al"
  by (simp add: update_keys map_of_eq_None_iff[symmetric] del: map_of_eq_None_iff)

lemma update_present_proj:
  "map_of al k = Some v \<Longrightarrow> h v' = h v \<Longrightarrow>
     map (\<lambda>p. (fst p, h (snd p))) (AList.update k v' al) = map (\<lambda>p. (fst p, h (snd p))) al"
  by (induction al) (auto split: if_splits)

lemma consistent_handle_answer:
  "consistent s \<Longrightarrow> consistent (settle (handle_answer w gid name answer s))"
proof (cases "games s gid")
  case None
  assume "consistent s" with None show ?thesis by (simp add: handle_answer_def)
next
  case (Some g)
  assume c: "consistent s"
  show ?thesis
  proof (cases "current_question g")
    case None
    with Some c show ?thesis by (simp add: handle_answer_def)
  next
    case q: (Some question)
    show ?thesis
    proof (cases "answer = JStr (meaning question)")
      case False
      have c': "consistent (s\<lparr>games := (games s)(gid \<mapsto> g)\<rparr>)"
        by (rule consistent_game_update[OF c Some]) simp_all
      show ?thesis
        by (rule consistentI2[OF c'])
          (use Some q False in \<open>simp_all add: handle_answer_def Let_def\<close>)
    next
      case True
      show ?thesis
      proof (cases "map_of (scores g) name")
        case None
        with Some q True c show ?thesis by (simp add: handle_answer_def)
      next
        case v: (Some v)
        let ?g' = "g\<lparr>scores := AList.update name (v + 10) (scores g)\<rparr>"
        have c': "consistent (s\<lparr>games := (games s)(gid \<mapsto> ?g')\<rparr>)"
          by (rule consistent_game_update[OF c Some]) (use v in \<open>simp_all add: update_present_keys\<close>)
        show ?thesis
          by (rule consistentI2[OF c'])
            (use Some q True v in \<open>simp_all add: handle_answer_def Let_def\<close>)
      qed
    qed
  qed
qed

lemma consistent_handle_message:
  "consistent s \<Longrightarrow> consistent (handle_message w pl gid name s)"
proof (cases pl)
  case (Obj action answer)
  assume c: "consistent s"
  show ?thesis
  proof (cases "games s gid")
    case None
    with Obj c show ?thesis by (simp add: handle_message_def handle_message_body_def)
  next
    case (Some g)
    consider (join) "action = JStr ''join''" | (start) "action = JStr ''start_game''"
      | (submit) "action = JStr ''submit_answer''" | (again) "action = JStr ''play_again''"
      | (other) "action \<noteq> JStr ''join''" "action \<noteq> JStr ''start_game''"
          "action \<noteq> JStr ''submit_answer''" "action \<noteq> JStr ''play_again''"
      by blast
    then show ?thesis
    proof cases
      case join
      show ?thesis
      proof (cases "map_of (players g) name")
        case None
        with Obj Some join c show ?thesis
          by (simp add: handle_message_def handle_message_body_def)
      next
        case pd: (Some pd)
        have "consistent (settle (broadcast_game_state gid
            (s\<lparr>games := (games s)(gid \<mapsto>
                g\<lparr>players := AList.update name (pd\<lparr>ready := True\<rparr>) (players g)\<rparr>)\<rparr>)))"
          by (intro consistent_broadcast_game_state consistent_game_update[OF c Some])
             (use pd in \<open>simp_all add: update_present_proj[where h = websocket]\<close>)
        with Obj Some join pd show ?thesis
          by (simp add: handle_message_def handle_message_body_def)
      qed
    next
      case start
      with Obj Some c show ?thesis
        by (simp add: handle_message_def handle_message_body_def consistent_start_game)
    next
      case submit
      with Obj Some c show ?thesis
        by (simp add: handle_message_def handle_message_body_def consistent_handle_answer)
    next
      case again
      with Obj Some c show ?thesis
        by (simp add: handle_message_def handle_message_body_def consistent_reset_game)
    next
      case other
      with Obj Some c show ?thesis
        by (simp add: handle_message_def handle_message_body_def)
    qed
  qed
qed (simp_all add: handle_message_def handle_message_body_def)


lemma game_ok_unregister:
  "game_ok conns gid g \<Longrightarrow> \<forall>pd \<in> set (players g). websocket (snd pd) \<noteq> w \<Longrightarrow>
     game_ok (conns(w := x)) gid g"
  by (simp add: game_ok_def)

lemma game_ok_holder:
  "game_ok conns gid g \<Longrightarrow> pd \<in> set (players g) \<Longrightarrow> conns (websocket (snd pd)) = Some (gid, fst pd)"
  by (simp add: game_ok_def)

lemma set_delete_subset: "set (AList.delete k al) = {p \<in> set al. fst p \<noteq> k}"
  by (auto simp: AList.delete_eq)

lemma game_ok_delete:
  assumes "game_ok conns gid g"
  shows "game_ok conns gid (g\<lparr>players := AList.delete name (players g),
                              scores := AList.delete name (scores g)\<rparr>)"
  using assms by (simp add: game_ok_def delete_keys distinct_removeAll set_delete_subset)

lemma consistent_handle_disconnect:
  assumes c: "consistent s"
  shows "consistent (settle (handle_disconnect w s))"
proof (cases "connections s w")
  case None
  with c show ?thesis by (simp add: handle_disconnect_def)
next
  case (Some reg)
  obtain gid name where reg: "reg = (gid, name)" by (cases reg)
  have holder: "gid' = gid \<and> fst pd = name"
    if "games s gid' = Some h" "pd \<in> set (players h)" "websocket (snd pd) = w" for gid' h pd
  proof -
    from c that(1) have "game_ok (connections s) gid' h" by (simp add: consistent_def)
    from game_ok_holder[OF this that(2)] that(3) Some reg show ?thesis by simp
  qed
  show ?thesis
  proof (cases "games s gid")
    case None
    have "game_ok ((connections s)(w := None)) gid' h" if h: "games s gid' = Some h" for gid' h
    proof (rule game_ok_unregister)
      from c h show "game_ok (connections s) gid' h" by (simp add: consistent_def)
      show "\<forall>pd\<in>set (players h). websocket (snd pd) \<noteq> w"
        using holder[OF h] None h by auto
    qed
    with Some reg None show ?thesis by (simp add: handle_disconnect_def consistent_def)
  next
    case g: (Some g)
    from c g have ok: "game_ok (connections s) gid g" by (simp add: consistent_def)
    show ?thesis
    proof (cases "name \<in> fst ` set (players g)")
      case False
      have "game_ok ((connections s)(w := None)) gid' h" if h: "games s gid' = Some h" for gid' h
      proof (rule game_ok_unregister)
        from c h show "game_ok (connections s) gid' h" by (simp add: consistent_def)
        show "\<forall>pd\<in>set (players h). websocket (snd pd) \<noteq> w"
          using holder[OF h] False g h by (fastforce intro: rev_image_eqI)
      qed
      with Some reg g False show ?thesis by (simp add: handle_disconnect_def consistent_def)
    next
      case True
      let ?g2 = "g\<lparr>players := AList.delete name (players g), scores := AList.delete name (scores g)\<rparr>"
      from ok have keys: "fst ` set (scores g) = fst ` set (players g)"
        by (metis game_ok_def set_map)
      have "game_ok ((connections s)(w := None)) gid' h"
        if h: "((games s)(gid \<mapsto> ?g2)) gid' = Some h" for gid' h
      proof (cases "gid' = gid")
        case eq: True
        with h have h2: "h = ?g2" by simp
        have "game_ok ((connections s)(w := None)) gid ?g2"
        proof (rule game_ok_unregister)
          show "game_ok (connections s) gid ?g2" by (rule game_ok_delete[OF ok])
          show "\<forall>pd\<in>set (players ?g2). websocket (snd pd) \<noteq> w"
            using holder[OF g] by (auto simp: set_delete_subset)
        qed
        with eq h2 show ?thesis by simp
      next
        case neq: False
        with h have h': "games s gid' = Some h" by simp
        show ?thesis
        proof (rule game_ok_unregister)
          from c h' show "game_ok (connections s) gid' h" by (simp add: consistent_def)
          show "\<forall>pd\<in>set (players h). websocket (snd pd) \<noteq> w"
            using holder[OF h'] neq by auto
        qed
      qed
      then have "consistent (s\<lparr>games := (games s)(gid \<mapsto> ?g2), connections := (connections s)(w := None)\<rparr>)"
        by (simp add: consistent_def)
      moreover have "settle (handle_disconnect w s) =
          (settle (broadcast_game_state gid (broadcast (PlayerLeft name) gid [w]
             (s\<lparr>games := (games s)(gid \<mapsto> ?g2)\<rparr>))))\<lparr>connections := (connections s)(w := None)\<rparr>"
        using Some reg g True keys
        by (simp add: handle_disconnect_def Let_def set_delete_subset broadcast_game_state_def
            split: outcome.splits option.splits)
      ultimately show ?thesis
        by (elim consistentI2) simp_all
    qed
  qed
qed


lemma set_update_subset: "set (AList.update k v al) \<subseteq> insert (k, v) (set al)"
  by (induction al) auto

lemma update_keys_cong:
  "map fst al = map fst bl \<Longrightarrow> map fst (AList.update k v al) = map fst (AList.update k v' bl)"
  by (simp add: update_keys)

lemma game_ok_join:
  assumes ok: "game_ok conns gid g" and fresh: "conns w = None"
  shows "game_ok (conns(w \<mapsto> (gid, name))) gid
           (g\<lparr>players := AList.update name \<lparr>websocket = w, ready = False\<rparr> (players g),
              scores := AList.update name 0 (scores g)\<rparr>)"
proof -
  have reg: "(conns(w \<mapsto> (gid, name))) (websocket (snd pd)) = Some (gid, fst pd)"
    if "pd \<in> set (AList.update name \<lparr>websocket = w, ready = False\<rparr> (players g))" for pd
  proof -
    from that set_update_subset
    have "pd = (name, \<lparr>websocket = w, ready = False\<rparr>) \<or> pd \<in> set (players g)" by fastforce
    then show ?thesis
    proof
      assume "pd = (name, \<lparr>websocket = w, ready = False\<rparr>)"
      then show ?thesis by simp
    next
      assume "pd \<in> set (players g)"
      from game_ok_holder[OF ok this] fresh show ?thesis by auto
    qed
  qed
  from ok have "map fst (scores g) = map fst (players g)" by (simp add: game_ok_def)
  then have "map fst (AList.update name 0 (scores g)) =
      map fst (AList.update name \<lparr>websocket = w, ready = False\<rparr> (players g))"
    by (rule update_keys_cong)
  with ok reg show ?thesis
    by (simp add: game_ok_def distinct_update)
qed

lemma game_ok_register_other:
  assumes ok: "game_ok conns gid' h" and fresh: "conns w = None"
  shows "game_ok (conns(w \<mapsto> x)) gid' h"
proof -
  have "conns (websocket (snd pd)) \<noteq> None" if "pd \<in> set (players h)" for pd
    using game_ok_holder[OF ok that] by simp
  with fresh have "\<forall>pd\<in>set (players h). websocket (snd pd) \<noteq> w" by metis
  with ok show ?thesis by (rule game_ok_unregister)
qed

lemma game_ok_new:
  "game_ok conns gid \<lparr>players = [], state = Lobby, host = name, current_question = None,
      scores = [], question_index = 0, questions = load_questions\<rparr>"
  by (simp add: game_ok_def)

lemma consistent_handle_connection:
  assumes c: "consistent s" and fresh: "connections s w = None"
  shows "consistent (settle (handle_connection w path s))"
proof (cases "length (split_on CHR ''/'' path) < 4")
  case True
  have "consistent (s\<lparr>closed := insert w (closed s)\<rparr>)"
    by (rule consistentI2[OF c]) simp_all
  then have "consistent (settle (handle_disconnect w (s\<lparr>closed := insert w (closed s)\<rparr>)))"
    by (rule consistent_handle_disconnect)
  with True show ?thesis by (simp add: handle_connection_def)
next
  case False
  define gid where "gid = split_on CHR ''/'' path ! 2"
  define name where "name = split_on CHR ''/'' path ! 3"
  define g where "g = (case games s gid of
       None \<Rightarrow> \<lparr>players = [], state = Lobby, host = name, current_question = None,
                 scores = [], question_index = 0, questions = load_questions\<rparr>
     | Some g \<Rightarrow> g)"
  define g' where "g' = g\<lparr>players := AList.update name \<lparr>websocket = w, ready = False\<rparr> (players g),
                          scores := AList.update name 0 (scores g)\<rparr>"
  define s1 where "s1 = s\<lparr>games := (games s)(gid \<mapsto> g'),
                          connections := (connections s)(w \<mapsto> (gid, name))\<rparr>"
  have ok: "game_ok (connections s) gid g"
    using c by (auto simp: g_def consistent_def game_ok_new split: option.splits)
  have "game_ok (connections s1) gid' h" if h: "games s1 gid' = Some h" for gid' h
  proof (cases "gid' = gid")
    case True
    with h have "h = g'" by (simp add: s1_def)
    with True game_ok_join[OF ok fresh] show ?thesis by (simp add: s1_def g'_def)
  next
    case False
    with h have "games s gid' = Some h" by (simp add: s1_def)
    with c have "game_ok (connections s) gid' h" by (simp add: consistent_def)
    from game_ok_register_other[OF this fresh] show ?thesis by (simp add: s1_def)
  qed
  then have c1: "consistent s1" by (simp add: consistent_def)
  have "games s1 gid \<noteq> None" by (simp add: s1_def)
  then have "settle (handle_connection w path s) = settle (broadcast_game_state gid s1)"
    using False
    by (auto simp: handle_connection_def Let_def gid_def name_def g_def g'_def s1_def
        broadcast_game_state_def split: option.splits)
  with c1 show ?thesis by (simp add: consistent_broadcast_game_state)
qed

lemma consistent_step:
  assumes c: "consistent s" and st: "step e s = Some s'"
  shows "consistent s'"
proof (cases e)
  case (Connect t w path)
  have "consistent (s\<lparr>now := t\<rparr>)" by (rule consistentI2[OF c]) simp_all
  then have "connections s w = None \<Longrightarrow> consistent (settle (handle_connection w path (s\<lparr>now := t\<rparr>)))"
    by (intro consistent_handle_connection) simp_all
  with st Connect show ?thesis by (auto split: if_splits)
next
  case (Recv t w pl)
  have "consistent (s\<lparr>now := t\<rparr>)" by (rule consistentI2[OF c]) simp_all
  then have "consistent (handle_message w pl gid name (s\<lparr>now := t\<rparr>))" for gid name
    by (rule consistent_handle_message)
  with st Recv show ?thesis by (auto split: if_splits option.splits)
next
  case (Drop t w)
  have "consistent (s\<lparr>now := t, closed := insert w (closed s)\<rparr>)"
    by (rule consistentI2[OF c]) simp_all
  with st Drop show ?thesis by (auto split: if_splits)
next
  case (Close t w)
  have "consistent (s\<lparr>now := t, closed := insert w (closed s)\<rparr>)"
    by (rule consistentI2[OF c]) simp_all
  then have "consistent (settle (handle_disconnect w (s\<lparr>now := t, closed := insert w (closed s)\<rparr>)))"
    by (rule consistent_handle_disconnect)
  with st Close show ?thesis by (auto split: if_splits)
next
  case (Fire k)
  define s0 where "s0 = s\<lparr>now := max (now s) (fst (pending s ! k)),
                      pending := take k (pending s) @ drop (Suc k) (pending s)\<rparr>"
  have c0: "consistent s0" unfolding s0_def by (rule consistentI2[OF c]) simp_all
  have "consistent (run_task tk s0)" for tk
    by (cases tk) (simp_all add: c0 consistent_question_timeout consistent_next_question)
  with st Fire show ?thesis by (auto simp: s0_def split: if_splits)
qed

lemma consistent_init: "consistent (init_server ent)"
  by (simp add: consistent_def init_server_def)

lemma consistent_run: "consistent s \<Longrightarrow> run es s = Some s' \<Longrightarrow> consistent s'"
  by (induction es arbitrary: s) (auto split: option.splits dest: consistent_step)

lemma reachable_consistent: "run es (init_server ent) = Some s \<Longrightarrow> consistent s"
  using consistent_init by (rule consistent_run)

text \<open>The definitions a concrete run unfolds.\<close>

lemmas exec_defs =
  init_server_def zeros_def time_ok_def busy_def handle_connection_def handle_disconnect_def
  handle_message_def handle_message_body_def start_game_def reset_game_def next_question_def
  end_game_def handle_answer_def question_timeout_def shuffle_def broadcast_def
  broadcast_game_state_def load_questions_def reset_scores_def winner_def py_max_by_def
  AList.delete_eq Let_def

text \<open>The winner is the first player with the largest score.\<close>

lemma py_max_by_snoc:
  "py_max_by key x (xs @ [y]) =
     (if key y > key (py_max_by key x xs) then y else py_max_by key x xs)"
  by (simp add: py_max_by_def)

lemma py_max_by_first:
  "\<exists>i < length (x # xs). py_max_by key x xs = (x # xs) ! i \<and>
      (\<forall>j < length (x # xs). key ((x # xs) ! j) \<le> key ((x # xs) ! i)) \<and>
      (\<forall>j < i. key ((x # xs) ! j) < key ((x # xs) ! i))"
proof (induction xs rule: rev_induct)
  case Nil
  then show ?case by (simp add: py_max_by_def)
next
  case (snoc y xs)
  define zs where "zs = x # xs"
  from snoc obtain i where i: "i < length zs" and best: "py_max_by key x xs = zs ! i"
    and ub: "\<forall>j < length zs. key (zs ! j) \<le> key (zs ! i)"
    and first: "\<forall>j < i. key (zs ! j) < key (zs ! i)"
    unfolding zs_def by blast
  have app: "x # xs @ [y] = zs @ [y]" by (simp add: zs_def)
  show ?case
  proof (cases "key y > key (zs ! i)")
    case True
    have "py_max_by key x (xs @ [y]) = (zs @ [y]) ! length zs"
      using True best by (simp add: py_max_by_snoc)
    moreover have "\<forall>j < length (zs @ [y]). key ((zs @ [y]) ! j) \<le> key ((zs @ [y]) ! length zs)"
      using True ub by (fastforce simp: nth_append less_Suc_eq)
    moreover have "\<forall>j < length zs. key ((zs @ [y]) ! j) < key ((zs @ [y]) ! length zs)"
      using True ub by (fastforce simp: nth_append)
    ultimately show ?thesis unfolding app
      by (intro exI[of _ "length zs"]) simp
  next
    case False
    have "py_max_by key x (xs @ [y]) = (zs @ [y]) ! i"
      using False i best by (simp add: py_max_by_snoc nth_append)
    moreover have "\<forall>j < length (zs @ [y]). key ((zs @ [y]) ! j) \<le> key ((zs @ [y]) ! i)"
      using False ub i by (auto simp: nth_append less_Suc_eq)
    moreover have "\<forall>j < i. key ((zs @ [y]) ! j) < key ((zs @ [y]) ! i)"
      using first i by (auto simp: nth_append)
    ultimately show ?thesis unfolding app
      using i by (intro exI[of _ i]) simp
  qed
qed

lemma winner_first_max:
  "winner sc = Some p \<Longrightarrow>
     \<exists>i < length sc. fst (sc ! i) = p \<and> (\<forall>j < length sc. snd (sc ! j) \<le> snd (sc ! i)) \<and>
        (\<forall>j < i. snd (sc ! j) < snd (sc ! i))"
proof (cases sc)
  case Nil
  assume "winner sc = Some p" with Nil show ?thesis by (simp add: winner_def)
next
  case (Cons x xs)
  assume "winner sc = Some p"
  with Cons have p: "p = fst (py_max_by snd x xs)" by (simp add: winner_def)
  from py_max_by_first[of x xs snd] p show ?thesis unfolding Cons by metis
qed

lemma winner_None: "winner sc = None \<longleftrightarrow> sc = []"
  by (simp add: winner_def split: list.splits)

text \<open>A shuffle permutes; one round of \<open>next_question\<close>.\<close>

lemma shuffle_loop_mset: "k < length x \<Longrightarrow> mset (shuffle_loop k x ent d) = mset x"
proof (induction k arbitrary: x d)
  case 0
  then show ?case by simp
next
  case (Suc k)
  define j where "j = ent d mod (Suc k + 1)"
  have "j < Suc k + 1" by (simp add: j_def)
  with Suc.prems have j: "j < length x" by simp
  let ?x' = "x[Suc k := x ! j, j := x ! Suc k]"
  have "mset ?x' = mset x" using Suc.prems j by (simp add: mset_swap)
  moreover have "k < length ?x'" using Suc.prems by simp
  ultimately show ?case using Suc.IH[of ?x' "d + 1"] by (simp add: j_def Let_def)
qed

lemma shuffle_mset: "mset (fst (shuffle x s)) = mset x"
proof (cases x)
  case Nil
  then show ?thesis by (simp add: shuffle_def)
next
  case (Cons a as)
  then have "length x - 1 < length x" by simp
  then show ?thesis by (simp add: shuffle_def shuffle_loop_mset)
qed

lemma next_question_round:
  assumes g: "games s gid = Some g" and n: "question_index g < length (questions g)"
    and q: "q = questions g ! question_index g"
    and c: "choices = fst (shuffle (meaning q # take 3 (distractors q)) s)"
  shows "\<exists>s'. next_question gid s = Ok s' \<and>
           games s' = (games s)(gid \<mapsto> g\<lparr>current_question := Some q,
                                          question_index := question_index g + 1\<rparr>) \<and>
           connections s' = connections s \<and> closed s' = closed s \<and> now s' = now s \<and>
           pending s' = pending s @ [(now s + 20, TimeoutWake gid)] \<and>
           outbox s' = outbox (broadcast (NewQuestion (qterm q) choices 20 (question_index g + 1)) gid [] s)"
  using g n by (simp add: next_question_def Let_def split_beta q c shuffle_def broadcast_def)

text \<open>What \<open>start_game\<close> and \<open>reset_game\<close> leave.\<close>

lemma start_game_effect:
  assumes g: "games s gid = Some g" and qs: "questions g = load_questions"
  shows "\<exists>g' choices. games (settle (start_game gid s)) gid = Some g' \<and>
           state g' = Playing \<and> question_index g' = 1 \<and>
           current_question g' = Some (load_questions ! 0) \<and>
           players g' = players g \<and> scores g' = reset_scores (scores g) \<and>
           outbox (settle (start_game gid s)) =
             outbox (broadcast (NewQuestion ''awe'' choices 20 1) gid [] s) \<and>
           pending (settle (start_game gid s)) = pending s @ [(now s + 20, TimeoutWake gid)]"
proof -
  let ?g0 = "g\<lparr>state := Playing, question_index := 0, scores := reset_scores (scores g)\<rparr>"
  let ?s0 = "s\<lparr>games := (games s)(gid \<mapsto> ?g0)\<rparr>"
  have st: "start_game gid s = next_question gid ?s0" using g by (simp add: start_game_def)
  have g0: "games ?s0 gid = Some ?g0" by simp
  have n0: "question_index ?g0 < length (questions ?g0)" using qs by (simp add: load_questions_def)
  from next_question_round[OF g0 n0 refl refl]
  obtain s' where s': "next_question gid ?s0 = Ok s'"
    and gs: "games s' = (games ?s0)(gid \<mapsto> ?g0\<lparr>current_question := Some (questions ?g0 ! question_index ?g0),
                 question_index := question_index ?g0 + 1\<rparr>)"
    and pe: "pending s' = pending ?s0 @ [(now ?s0 + 20, TimeoutWake gid)]"
    and ob: "outbox s' = outbox (broadcast (NewQuestion (qterm (questions ?g0 ! question_index ?g0))
        (fst (shuffle (meaning (questions ?g0 ! question_index ?g0) #
               take 3 (distractors (questions ?g0 ! question_index ?g0))) ?s0)) 20
        (question_index ?g0 + 1)) gid [] ?s0)"
    by blast
  have b: "outbox (broadcast m gid [] ?s0) = outbox (broadcast m gid [] s)" for m
    using g by (simp add: broadcast_def)
  have t: "qterm (load_questions ! 0) = ''awe''" by (simp add: load_questions_def)
  show ?thesis
    unfolding st s' using gs pe ob qs b t by simp (rule exI, rule refl)
qed

lemma reset_game_effect:
  assumes g: "games s gid = Some g"
  shows "\<exists>g'. games (settle (reset_game gid s)) gid = Some g' \<and>
           state g' = Lobby \<and> question_index g' = 0 \<and> current_question g' = None \<and>
           players g' = players g \<and> scores g' = reset_scores (scores g) \<and>
           outbox (settle (reset_game gid s)) =
             outbox (broadcast (GameState (map (\<lambda>pd. (fst pd, ready (snd pd))) (players g))
                                  (reset_scores (scores g)) Lobby (host g)) gid [] s) \<and>
           pending (settle (reset_game gid s)) = pending s"
  using g by (simp add: reset_game_def broadcast_game_state_def broadcast_def)

text \<open>
  When no send waits, the loop is \<open>broadcast\<close> and the cleanup is \<open>handle_disconnect\<close>.
\<close>

lemma send_entries_free:
  "\<forall>pd \<in> set ents. (websocket (snd pd), msg) \<notin> stalled \<Longrightarrow>
     send_entries stalled msg exclude pos ents s =
       LoopDone (s\<lparr>outbox := outbox s @
          map (\<lambda>pd. (websocket (snd pd), msg))
            (filter (\<lambda>pd. websocket (snd pd) \<notin> set exclude \<and> websocket (snd pd) \<notin> closed s) ents)\<rparr>)"
proof (induction ents arbitrary: pos s)
  case Nil
  then show ?case by simp
next
  case (Cons pd ents)
  then show ?case by (simp add: Let_def)
qed

lemma send_from_free:
  assumes "games s gid = Some game"
    and "\<forall>pd \<in> set (players game). (websocket (snd pd), render msg game) \<notin> stalled"
  shows "send_from stalled msg gid exclude (length (players game)) 0 s =
           LoopDone (broadcast (render msg game) gid exclude s)"
  using assms by (simp add: send_from_def send_entries_free broadcast_def)

lemma render_fixed [simp]:
  "render (PlayerLeft n) game = PlayerLeft n"
  "render (GameState ps sc st h) game = GameState ps (scores game) st h"
  "render (GameOver sc win) game = GameOver (scores game) win"
  by (simp_all add: render_def)

lemma cleanup_start_unstalled:
  assumes free: "\<And>gid name game. connections s w = Some (gid, name) \<Longrightarrow> games s gid = Some game \<Longrightarrow>
            \<forall>pd \<in> set (AList.delete name (players game)). \<forall>m. (websocket (snd pd), m) \<notin> stalled"
  shows "cleanup_start stalled w s = Returned (handle_disconnect w s)"
proof (cases "connections s w")
  case None
  then show ?thesis by (simp add: cleanup_start_def handle_disconnect_def)
next
  case (Some reg)
  obtain gid name where reg: "reg = (gid, name)" by (cases reg)
  show ?thesis
  proof (cases "games s gid")
    case None
    with Some reg show ?thesis by (simp add: cleanup_start_def handle_disconnect_def)
  next
    case g: (Some g)
    show ?thesis
    proof (cases "name \<in> fst ` set (players g) \<and> name \<in> fst ` set (scores g)")
      case False
      with Some reg g show ?thesis
        by (auto simp: cleanup_start_def handle_disconnect_def Let_def)
    next
      case True
      let ?g2 = "g\<lparr>players := AList.delete name (players g), scores := AList.delete name (scores g)\<rparr>"
      let ?s2 = "s\<lparr>games := (games s)(gid \<mapsto> ?g2)\<rparr>"
      have fr: "\<forall>pd \<in> set (players ?g2). (websocket (snd pd), m) \<notin> stalled" for m
        using free[OF Some[unfolded reg] g] by simp
      have g2: "games ?s2 gid = Some ?g2" by simp
      have l: "send_from stalled (PlayerLeft name) gid [w] (length (players ?g2)) 0 ?s2 =
          LoopDone (broadcast (PlayerLeft name) gid [w] ?s2)"
        using send_from_free[OF g2 fr, of "PlayerLeft name" "[w]"] by simp
      let ?s3 = "broadcast (PlayerLeft name) gid [w] ?s2"
      have g3: "games ?s3 gid = Some ?g2" by simp
      let ?m = "GameState (map (\<lambda>pd. (fst pd, ready (snd pd))) (players ?g2)) (scores ?g2) (state ?g2) (host ?g2)"
      have r: "send_from stalled ?m gid [] (length (players ?g2)) 0 ?s3 = LoopDone (broadcast ?m gid [] ?s3)"
        using send_from_free[OF g3 fr, of ?m "[]"] by simp
      have c: "connections (broadcast ?m gid [] ?s3) w = Some (gid, name)"
        using Some reg by simp
      show ?thesis
        using Some reg g True l r c g3
        by (simp add: cleanup_start_def cleanup_left_loop_def cleanup_state_loop_def
            handle_disconnect_def broadcast_game_state_def Let_def)
    qed
  qed
qed

lemma cleanup_start_free: "cleanup_start {} w s = Returned (handle_disconnect w s)"
  by (rule cleanup_start_unstalled) simp








text \<open>The choices of a round, item by item, and the items of the bank.\<close>

lemma choices_of_item:
  assumes "games s gid = Some g" and "question_index g < length (questions g)"
    and "q = questions g ! question_index g"
    and "3 \<le> length (distractors q)"
    and "meaning q \<notin> set (take 3 (distractors q))"
  shows "\<exists>choices s'. next_question gid s = Ok s' \<and>
           outbox s' = outbox (broadcast (NewQuestion (qterm q) choices 20 (question_index g + 1)) gid [] s) \<and>
           length choices = 4 \<and>
           count_list choices (meaning q) = 1 \<and>
           mset choices = {#meaning q#} + mset (take 3 (distractors q))"
proof -
  define choices where "choices = fst (shuffle (meaning q # take 3 (distractors q)) s)"
  have m: "mset choices = {#meaning q#} + mset (take 3 (distractors q))"
    by (simp add: choices_def shuffle_mset)
  then have "size (mset choices) = 4" using assms(4) by simp
  then have len: "length choices = 4" by simp
  have "count (mset choices) (meaning q) = 1"
    unfolding m using assms(5) by (simp add: count_mset_0_iff[THEN iffD2] del: count_mset_0_iff)
  then have cnt: "count_list choices (meaning q) = 1" by (simp add: count_mset)
  from next_question_round[OF assms(1,2,3) choices_def] m len cnt show ?thesis by blast
qed

lemma load_questions_items:
  "\<forall>q \<in> set load_questions.
     3 \<le> length (distractors q) \<and> meaning q \<notin> set (take 3 (distractors q))"
  by (simp add: load_questions_def)

lemmas obs_defs = game_after_def outbox_after_def inbox_after_def pending_after_def

lemmas cleanup_defs =
  cleanup_start_def cleanup_left_loop_def cleanup_state_loop_def cleanup_resume_def
  send_from_def render_def roster_def

section \<open>Two runs of the cleanup\<close>

text \<open>
  A roster change during a waiting send. Alice, Bob and Carol are in game \<open>G\<close>. The message
  loop of Alice's connection ends: the cleanup removes her entries, and its send of
  \<open>player_left\<close> to Bob waits. Meanwhile the message loop of Carol's connection ends and
  her cleanup removes her entries. When the first cleanup is resumed, the players dict
  has 1 entry where it had 2 when the loop began: the iterator raises RuntimeError, which
  leaves \<open>handle_disconnect\<close>. The first cleanup sends nothing more, and the registry entry
  of websocket 1 stays.
\<close>

lemma interrupted_cleanup_raises:
  "stalled_cleanup =
     Suspended (AtLeft ''Alice'' ''G'' 1 2 [(''Bob'', 2), (''Carol'', 3)]) (state_of stalled_cleanup) \<and>
   outbox (state_of stalled_cleanup) = outbox trio_server @ [(2, PlayerLeft ''Alice'')] \<and>
   step (Close 4 3) (state_of stalled_cleanup) = Some carol_gone \<and>
   map_option players (games carol_gone ''G'') = Some [(''Bob'', \<lparr>websocket = 2, ready = False\<rparr>)] \<and>
   cleanup_resume {} 1 (AtLeft ''Alice'' ''G'' 1 2 [(''Bob'', 2), (''Carol'', 3)]) carol_gone =
     Returned (Raised RuntimeError carol_gone) \<and>
   connections carol_gone 1 = Some (''G'', ''Alice'')"
  by (simp add: carol_gone_def stalled_cleanup_def trio_server_def trio_trace_def cleanup_defs
      exec_defs)

text \<open>
  A remaining player whose websocket is closed is passed over by the loop. The transport
  of Bob's connection closes at time 3, and the message loop of Alice's connection ends at
  time 4, before that of Bob's: Bob is still a player, and only Carol is sent the
  \<open>player_left\<close> event and the game state.
\<close>

lemma closed_player_skipped:
  "outbox_after (trio_trace @ [Drop 3 2]) = outbox_after trio_trace \<and>
   outbox_after trio_trace \<noteq> None \<and>
   outbox_after (trio_trace @ [Drop 3 2, Close 4 1]) =
     map_option (\<lambda>ob. ob @
         [(3, PlayerLeft ''Alice''),
          (3, GameState [(''Bob'', False), (''Carol'', False)] [(''Bob'', 0), (''Carol'', 0)]
                Lobby ''Alice'')])
       (outbox_after trio_trace) \<and>
   map_option players (game_after (trio_trace @ [Drop 3 2, Close 4 1]) ''G'') =
     Some [(''Bob'', \<lparr>websocket = 2, ready = False\<rparr>), (''Carol'', \<lparr>websocket = 3, ready = False\<rparr>)]"
  by (simp add: outbox_after_def game_after_def trio_trace_def exec_defs)

section \<open>The claims\<close>

subsection \<open>C1: an answer racing the timeout\<close>

text \<open>
  C1 asks that an answer and the timeout of the same round advance the game once. The
  code advances twice. Round 1 starts at time 0 and Bob answers at 18, so that the
  timeout of round 1 (due at 20) and the sleep of the answer (due at 21) are both
  pending with the question index at 1. The timeout wakes first: its guard only asks
  for state \<open>playing\<close> and some current question, so it passes, the \<open>System\<close> result is
  sent and a second sleep starts. At 21 the answer advances to round 2, and at 23 the
  timeout advances again, to round 3: the index is 3, round 2 lasted two time units,
  and two timeouts are pending.
\<close>

theorem answer_and_timeout_both_advance:
  "map_option question_index (game_after race_prefix ''G'') = Some 1 \<and>
   pending_after race_prefix = Some [(20, TimeoutWake ''G''), (21, AnswerAdvance 2 ''G'')] \<and>
   map_option question_index (game_after race_trace ''G'') = Some 3 \<and>
   map_option current_question (game_after race_trace ''G'') = Some (Some (load_questions ! 2)) \<and>
   map_option now (run race_trace (init_server zeros)) = Some 23 \<and>
   pending_after race_trace = Some [(41, TimeoutWake ''G''), (43, TimeoutWake ''G'')] \<and>
   inbox_after race_trace 1 =
     Some [GameState [(''Alice'', False)] [(''Alice'', 0)] Lobby ''Alice'',
           GameState [(''Alice'', False), (''Bob'', False)] [(''Alice'', 0), (''Bob'', 0)] Lobby ''Alice'',
           NewQuestion ''awe'' [''goodbye'', ''please'', ''thank you'', ''friendly greeting; hey/what's up''] 20 1,
           AnswerResult ''Bob'' True ''friendly greeting; hey/what's up'',
           AnswerResult ''System'' False ''friendly greeting; hey/what's up'',
           NewQuestion ''braai'' [''bake bread'', ''stir-fry veggies'', ''drink tea'', ''barbecue; cook meat over coals''] 20 2,
           NewQuestion ''howzit'' [''goodbye'', ''please'', ''congrats'', ''hello; how are you?''] 20 3]"
  by (simp add: obs_defs race_trace_def race_prefix_def exec_defs)

subsection \<open>C2: the current question outside a round\<close>

text \<open>
  C2 asks that the current question is null whenever the game is not playing a round,
  in particular after \<open>end_game\<close>. \<open>reset_game\<close> clears the question; \<open>end_game\<close> does not. A
  game of one player whose three rounds time out is \<open>Finished\<close> at time 69 with the
  third question still current; an answer sent at 70 is then scored in the finished
  game. The same is seen on \<open>end_game\<close> alone, at \<open>final_server\<close>.
\<close>

theorem question_survives_end_game:
  "map_option state (game_after finish_trace ''G'') = Some Finished \<and>
   map_option current_question (game_after finish_trace ''G'') = Some (Some (load_questions ! 2)) \<and>
   map_option now (run finish_trace (init_server zeros)) = Some 69 \<and>
   map_option scores (game_after finish_trace ''G'') = Some [(''Alice'', 0)] \<and>
   map_option state (game_after late_answer_trace ''G'') = Some Finished \<and>
   map_option scores (game_after late_answer_trace ''G'') = Some [(''Alice'', 10)] \<and>
   map_option current_question (games (settle (end_game ''G'' final_server)) ''G'') =
     Some (Some (load_questions ! 2)) \<and>
   map_option state (games (settle (end_game ''G'' final_server)) ''G'') = Some Finished"
  by (simp add: obs_defs late_answer_trace_def finish_trace_def final_server_def final_game_def exec_defs)

subsection \<open>C3: a second answer in the same round\<close>

text \<open>
  C3 asks that an answer after the first one of a round changes no score and causes no
  further advance. The code scores it and advances again. Alice answers round 1
  correctly at time 5 and Bob at 6, while \<open>handle_answer\<close> of Alice sleeps: the question of
  round 1 is still current, so Bob's score goes from 0 to 10 as well and a second
  advance is scheduled. The two sleeps end at 8 and 9, and each calls \<open>next_question\<close>:
  the index is 3 at time 9, and round 2 lasted one time unit.
\<close>

theorem second_answer_scored_and_advances:
  "map_option scores (game_after first_answer_trace ''G'') = Some [(''Alice'', 10), (''Bob'', 0)] \<and>
   map_option question_index (game_after first_answer_trace ''G'') = Some 1 \<and>
   map_option scores (game_after second_answer_trace ''G'') = Some [(''Alice'', 10), (''Bob'', 10)] \<and>
   map_option question_index (game_after second_answer_trace ''G'') = Some 1 \<and>
   pending_after second_answer_trace =
     Some [(21, TimeoutWake ''G''), (8, AnswerAdvance 1 ''G''), (9, AnswerAdvance 2 ''G'')] \<and>
   map_option question_index (game_after two_advances_trace ''G'') = Some 3 \<and>
   map_option now (run two_advances_trace (init_server zeros)) = Some 9 \<and>
   inbox_after two_advances_trace 2 =
     Some [GameState [(''Alice'', False), (''Bob'', False)] [(''Alice'', 0), (''Bob'', 0)] Lobby ''Alice'',
           NewQuestion ''awe'' [''goodbye'', ''please'', ''thank you'', ''friendly greeting; hey/what's up''] 20 1,
           AnswerResult ''Alice'' True ''friendly greeting; hey/what's up'',
           AnswerResult ''Bob'' True ''friendly greeting; hey/what's up'',
           NewQuestion ''braai'' [''bake bread'', ''stir-fry veggies'', ''drink tea'', ''barbecue; cook meat over coals''] 20 2,
           NewQuestion ''howzit'' [''goodbye'', ''please'', ''congrats'', ''hello; how are you?''] 20 3]"
  by (simp add: obs_defs two_advances_trace_def second_answer_trace_def first_answer_trace_def exec_defs)

subsection \<open>C4: players and scores have the same keys\<close>

text \<open>
  C4. In every state the server reaches (after any connect, message, transport drop,
  disconnect, or wake-up of a sleeping coroutine, which covers start, advance, end and
  reset), the players dict and the scores dict of every game have exactly the same key
  set; they even list the keys in the same order.
\<close>

theorem players_scores_same_keys:
  assumes "run es (init_server ent) = Some s" and "games s gid = Some g"
  shows "fst ` set (players g) = fst ` set (scores g) \<and> map fst (players g) = map fst (scores g)"
proof -
  from assms(1) have "consistent s" by (rule reachable_consistent)
  with assms(2) have "map fst (scores g) = map fst (players g)"
    by (simp add: consistent_def game_ok_def)
  then show ?thesis by (metis set_map)
qed

theorem players_scores_same_keys_witness:
  "game_after roster_trace ''G'' \<noteq> None \<and>
   fst ` set (players (the (game_after roster_trace ''G''))) =
   fst ` set (scores (the (game_after roster_trace ''G'')))"
proof -
  have "game_after roster_trace ''G'' \<noteq> None"
    by (simp add: game_after_def roster_trace_def exec_defs)
  then obtain s g where r: "run roster_trace (init_server zeros) = Some s"
    and g: "games s ''G'' = Some g"
    by (auto simp: game_after_def split: option.splits)
  from players_scores_same_keys[OF r g] r g show ?thesis
    by (simp add: game_after_def)
qed

subsection \<open>C5: scoring an answer\<close>

text \<open>
  C5. A \<open>submit_answer\<close> message is handled as follows. When no question is active,
  nothing changes. When a question is active and the answer is a string exactly equal
  to its stored meaning, the score of the submitter, who has a score, becomes exactly
  10 more, and no other score and nothing else of any game changes; a submitter whose
  name has no score entry (the entry was deleted by the disconnect of another
  connection of that name) changes nothing. When a question is active and the answer
  is anything else, a variant in case or whitespace included, no game changes at all,
  so all scores are unchanged.
\<close>

theorem answer_scoring:
  assumes "games s gid = Some g"
    and "s' = handle_message w (Obj (JStr ''submit_answer'') answer) gid name s"
  shows "(current_question g = None \<longrightarrow> s' = s) \<and>
         (\<forall>q v. current_question g = Some q \<and> answer = JStr (meaning q) \<and>
            map_of (scores g) name = Some v \<longrightarrow>
              games s' = (games s)(gid \<mapsto> g\<lparr>scores := AList.update name (v + 10) (scores g)\<rparr>) \<and>
              map_of (AList.update name (v + 10) (scores g)) name = Some (v + 10) \<and>
              (\<forall>n. n \<noteq> name \<longrightarrow>
                 map_of (AList.update name (v + 10) (scores g)) n = map_of (scores g) n)) \<and>
         (\<forall>q. current_question g = Some q \<and> answer = JStr (meaning q) \<and>
            map_of (scores g) name = None \<longrightarrow> s' = s) \<and>
         (\<forall>q. current_question g = Some q \<and> answer \<noteq> JStr (meaning q) \<longrightarrow> games s' = games s)"
proof -
  have body: "s' = settle (handle_answer w gid name answer s)"
    using assms by (simp add: handle_message_def handle_message_body_def)
  have 1: "current_question g = None \<Longrightarrow> s' = s"
    using assms(1) body by (simp add: handle_answer_def)
  have 2: "games s' = (games s)(gid \<mapsto> g\<lparr>scores := AList.update name (v + 10) (scores g)\<rparr>)"
    if "current_question g = Some q" "answer = JStr (meaning q)" "map_of (scores g) name = Some v"
    for q v
    using assms(1) body that by (simp add: handle_answer_def Let_def)
  have 3: "s' = s"
    if "current_question g = Some q" "answer = JStr (meaning q)" "map_of (scores g) name = None"
    for q
    using assms(1) body that by (simp add: handle_answer_def Let_def)
  have 4: "games s' = games s"
    if "current_question g = Some q" "answer \<noteq> JStr (meaning q)" for q
    using assms(1) body that by (simp add: handle_answer_def Let_def fun_upd_idem)
  show ?thesis
    using 1 2 3 4 by (simp add: update_conv')
qed

theorem answer_scoring_witness:
  "games round_server ''G'' = Some round_game \<and>
   games (handle_message 2 (Obj (JStr ''submit_answer'') (JStr ''barbecue; cook meat over coals''))
            ''G'' ''Bob'' round_server) =
     (games round_server)(''G'' \<mapsto> round_game\<lparr>scores := [(''Alice'', 10), (''Bob'', 10)]\<rparr>) \<and>
   games (handle_message 2 (Obj (JStr ''submit_answer'') (JStr ''Barbecue; cook meat over coals''))
            ''G'' ''Bob'' round_server) = games round_server \<and>
   games (handle_message 2 (Obj (JStr ''submit_answer'') (JStr ''barbecue; cook meat over coals ''))
            ''G'' ''Bob'' round_server) = games round_server \<and>
   handle_message 2 (Obj (JStr ''submit_answer'') (JStr ''barbecue; cook meat over coals''))
     ''G'' ''Carol'' round_server = round_server \<and>
   games (round_server\<lparr>games := [''G'' \<mapsto> round_game\<lparr>current_question := None\<rparr>]\<rparr>) ''G'' =
     Some (round_game\<lparr>current_question := None\<rparr>) \<and>
   handle_message 2 (Obj (JStr ''submit_answer'') (JStr ''barbecue; cook meat over coals''))
     ''G'' ''Bob'' (round_server\<lparr>games := [''G'' \<mapsto> round_game\<lparr>current_question := None\<rparr>]\<rparr>) =
   round_server\<lparr>games := [''G'' \<mapsto> round_game\<lparr>current_question := None\<rparr>]\<rparr>"
proof -
  have g: "games round_server ''G'' = Some round_game" by (simp add: round_server_def)
  have q: "current_question round_game = Some (load_questions ! 1)" by (simp add: round_game_def)
  have m: "meaning (load_questions ! 1) = ''barbecue; cook meat over coals''"
    by (simp add: load_questions_def)
  have bob: "map_of (scores round_game) ''Bob'' = Some 0" by (simp add: round_game_def)
  have carol: "map_of (scores round_game) ''Carol'' = None" by (simp add: round_game_def)
  have upd: "AList.update ''Bob'' (0 + 10) (scores round_game) = [(''Alice'', 10), (''Bob'', 10)]"
    by (simp add: round_game_def)
  let ?idle = "round_server\<lparr>games := [''G'' \<mapsto> round_game\<lparr>current_question := None\<rparr>]\<rparr>"
  have g0: "games ?idle ''G'' = Some (round_game\<lparr>current_question := None\<rparr>)" by simp
  have n0: "current_question (round_game\<lparr>current_question := None\<rparr>) = None" by simp
  note a = answer_scoring[OF g refl, of 2 "JStr ''barbecue; cook meat over coals''" "''Bob''"]
  note b = answer_scoring[OF g refl, of 2 "JStr ''Barbecue; cook meat over coals''" "''Bob''"]
  note c = answer_scoring[OF g refl, of 2 "JStr ''barbecue; cook meat over coals ''" "''Bob''"]
  note d = answer_scoring[OF g refl, of 2 "JStr ''barbecue; cook meat over coals''" "''Carol''"]
  note e = answer_scoring[OF g0 refl, of 2 "JStr ''barbecue; cook meat over coals''" "''Bob''"]
  from a q m bob upd have 1: "games (handle_message 2 (Obj (JStr ''submit_answer'') (JStr ''barbecue; cook meat over coals''))
            ''G'' ''Bob'' round_server) =
     (games round_server)(''G'' \<mapsto> round_game\<lparr>scores := [(''Alice'', 10), (''Bob'', 10)]\<rparr>)"
    by simp
  from b q m have 2: "games (handle_message 2 (Obj (JStr ''submit_answer'') (JStr ''Barbecue; cook meat over coals''))
            ''G'' ''Bob'' round_server) = games round_server" by simp
  from c q m have 3: "games (handle_message 2 (Obj (JStr ''submit_answer'') (JStr ''barbecue; cook meat over coals ''))
            ''G'' ''Bob'' round_server) = games round_server" by simp
  from d q m carol have 4: "handle_message 2 (Obj (JStr ''submit_answer'') (JStr ''barbecue; cook meat over coals''))
     ''G'' ''Carol'' round_server = round_server" by simp
  from e n0 have 5: "handle_message 2 (Obj (JStr ''submit_answer'') (JStr ''barbecue; cook meat over coals''))
     ''G'' ''Bob'' ?idle = ?idle" by blast
  from g 1 2 3 4 5 g0 show ?thesis by blast
qed

subsection \<open>C6: the choices of a round\<close>

text \<open>
  C6. In every reachable state, every item of the question bank of a game has at least 3
  distractors, and for every round that \<open>next_question\<close> advances to (the question index
  is within the bank) the choice list that is broadcast has exactly 4 entries, contains
  the meaning of the item exactly once, and is a permutation of the meaning plus the
  first 3 distractors of the item.
\<close>

theorem choices_permutation:
  assumes "run es (init_server ent) = Some s" and "games s gid = Some g"
    and "question_index g < length (questions g)"
    and "q = questions g ! question_index g"
  shows "(\<forall>item \<in> set (questions g). 3 \<le> length (distractors item)) \<and>
         (\<exists>choices s'. next_question gid s = Ok s' \<and>
            outbox s' = outbox (broadcast (NewQuestion (qterm q) choices 20 (question_index g + 1)) gid [] s) \<and>
            length choices = 4 \<and>
            count_list choices (meaning q) = 1 \<and>
            mset choices = {#meaning q#} + mset (take 3 (distractors q)))"
proof -
  from assms(1) have "consistent s" by (rule reachable_consistent)
  with assms(2) have "game_ok (connections s) gid g" by (simp add: consistent_def)
  then have bank: "questions g = load_questions" by (simp add: game_ok_def)
  from assms(3,4) have "q \<in> set (questions g)" by simp
  with bank load_questions_items
  have q: "3 \<le> length (distractors q)" "meaning q \<notin> set (take 3 (distractors q))"
    by auto
  from bank load_questions_items
  have "\<forall>item \<in> set (questions g). 3 \<le> length (distractors item)" by simp
  with choices_of_item[OF assms(2,3,4) q] show ?thesis by blast
qed

theorem choices_permutation_witness:
  "run scored_trace (init_server zeros) = Some scored_server \<and>
   map_option question_index (games scored_server ''G'') = Some 1 \<and>
   map_option questions (games scored_server ''G'') = Some load_questions \<and>
   (\<exists>choices s'. next_question ''G'' scored_server = Ok s' \<and>
      outbox s' = outbox (broadcast (NewQuestion ''braai'' choices 20 2) ''G'' [] scored_server) \<and>
      length choices = 4 \<and> count_list choices ''barbecue; cook meat over coals'' = 1 \<and>
      mset choices = {#''barbecue; cook meat over coals''#} +
                     mset [''bake bread'', ''stir-fry veggies'', ''drink tea''])"
proof -
  have r: "run scored_trace (init_server zeros) = Some scored_server"
    by (simp add: scored_server_def scored_trace_def exec_defs)
  have e: "map_option question_index (games scored_server ''G'') = Some 1"
    "map_option questions (games scored_server ''G'') = Some load_questions"
    by (simp_all add: scored_server_def scored_trace_def exec_defs)
  then obtain g where g: "games scored_server ''G'' = Some g"
    and gv: "question_index g = 1" "questions g = load_questions"
    by auto
  have n: "question_index g < length (questions g)" by (simp add: gv load_questions_def)
  from choices_permutation[OF r g n refl]
  have "\<exists>choices s'. next_question ''G'' scored_server = Ok s' \<and>
      outbox s' = outbox (broadcast (NewQuestion ''braai'' choices 20 2) ''G'' [] scored_server) \<and>
      length choices = 4 \<and> count_list choices ''barbecue; cook meat over coals'' = 1 \<and>
      mset choices = {#''barbecue; cook meat over coals''#} +
                     mset [''bake bread'', ''stir-fry veggies'', ''drink tea'']"
    by (simp add: gv load_questions_def numeral_2_eq_2)
  with r e show ?thesis by blast
qed

subsection \<open>C7: the end of the bank\<close>

text \<open>
  C7. When \<open>next_question\<close> is called and the question index has reached the length of
  the question bank, the game becomes \<open>Finished\<close> (nothing else of it changes) and a
  \<open>game_over\<close> message with the scores and the winner is broadcast to its players. The
  winner is null exactly when the scores dict is empty; otherwise it is a player whose
  score is maximal and strictly greater than the score of every player enumerated
  before: the first player with the maximal score in the order of the scores dict.
\<close>

theorem end_of_bank_winner:
  assumes "games s gid = Some g" and "length (questions g) \<le> question_index g"
  shows "\<exists>s'. next_question gid s = Ok s' \<and>
           games s' = (games s)(gid \<mapsto> g\<lparr>state := Finished\<rparr>) \<and>
           outbox s' = outbox (broadcast (GameOver (scores g) (winner (scores g))) gid [] s) \<and>
           (winner (scores g) = None \<longleftrightarrow> scores g = []) \<and>
           (\<forall>p. winner (scores g) = Some p \<longrightarrow>
              (\<exists>i < length (scores g). fst (scores g ! i) = p \<and>
                 (\<forall>j < length (scores g). snd (scores g ! j) \<le> snd (scores g ! i)) \<and>
                 (\<forall>j < i. snd (scores g ! j) < snd (scores g ! i))))"
proof -
  have "next_question gid s = end_game gid s"
    using assms by (simp add: next_question_def)
  then have "next_question gid s =
      Ok (broadcast (GameOver (scores g) (winner (scores g))) gid []
            (s\<lparr>games := (games s)(gid \<mapsto> g\<lparr>state := Finished\<rparr>)\<rparr>))"
    using assms(1) by (simp add: end_game_def)
  moreover have "outbox (broadcast m gid [] (s\<lparr>games := (games s)(gid \<mapsto> g\<lparr>state := Finished\<rparr>)\<rparr>)) =
      outbox (broadcast m gid [] s)" for m
    using assms(1) by (simp add: broadcast_def)
  ultimately show ?thesis
    using winner_first_max[of "scores g"] by (simp add: winner_None)
qed

theorem end_of_bank_winner_witness:
  "games final_server ''G'' = Some final_game \<and>
   length (questions final_game) \<le> question_index final_game \<and>
   winner (scores final_game) = Some ''Bob'' \<and>
   (\<exists>s'. next_question ''G'' final_server = Ok s' \<and>
      games s' = (games final_server)(''G'' \<mapsto> final_game\<lparr>state := Finished\<rparr>) \<and>
      outbox s' = outbox (broadcast (GameOver (scores final_game) (Some ''Bob'')) ''G'' [] final_server))"
proof -
  have g: "games final_server ''G'' = Some final_game" by (simp add: final_server_def)
  have n: "length (questions final_game) \<le> question_index final_game"
    by (simp add: final_game_def load_questions_def)
  have w: "winner (scores final_game) = Some ''Bob''"
    by (simp add: final_game_def winner_def py_max_by_def)
  from end_of_bank_winner[OF g n] g n w show ?thesis by auto
qed

subsection \<open>C8: the cleanup of a connection\<close>




subsection \<open>C9: joining again under a name in use\<close>

text \<open>
  C9. When a connection arrives whose path names a game that exists and a player name
  already present in it, then whatever the state of the game (playing included), the
  player entry of that name holds the new websocket with the ready flag false, the
  score of that name is 0, and the registry maps the new websocket to the game and the
  name; the entries of the other names, their order, and the state, the question and
  the question index of the game are unchanged.
\<close>

theorem rejoin_resets:
  assumes "split_on CHR ''/'' path = parts" and "4 \<le> length parts"
    and "parts ! 2 = gid" and "parts ! 3 = name"
    and "games s gid = Some g" and "name \<in> fst ` set (players g)"
  shows "\<exists>s' g'. handle_connection w path s = Ok s' \<and> games s' gid = Some g' \<and>
           map_of (players g') name = Some \<lparr>websocket = w, ready = False\<rparr> \<and>
           map_of (scores g') name = Some 0 \<and>
           connections s' w = Some (gid, name) \<and>
           state g' = state g \<and> current_question g' = current_question g \<and>
           question_index g' = question_index g \<and> host g' = host g \<and>
           map fst (players g') = map fst (players g) \<and>
           (\<forall>n. n \<noteq> name \<longrightarrow> map_of (players g') n = map_of (players g) n \<and>
                              map_of (scores g') n = map_of (scores g) n)"
proof -
  define g' where "g' = g\<lparr>players := AList.update name \<lparr>websocket = w, ready = False\<rparr> (players g),
                          scores := AList.update name 0 (scores g)\<rparr>"
  define s1 where "s1 = s\<lparr>games := (games s)(gid \<mapsto> g'),
                          connections := (connections s)(w \<mapsto> (gid, name))\<rparr>"
  have "handle_connection w path s = Ok (settle (broadcast_game_state gid s1))"
    using assms(1-5)
    by (simp add: handle_connection_def Let_def g'_def s1_def broadcast_game_state_def)
  moreover have "games (settle (broadcast_game_state gid s1)) gid = Some g'"
    and "connections (settle (broadcast_game_state gid s1)) w = Some (gid, name)"
    by (simp_all add: s1_def)
  moreover have "map fst (players g') = map fst (players g)"
    using assms(6) by (simp add: g'_def update_keys)
  ultimately show ?thesis
    by (simp add: g'_def update_conv')
qed

theorem rejoin_resets_witness:
  "split_on CHR ''/'' ''/ws/G/Alice'' = ['''', ''ws'', ''G'', ''Alice''] \<and>
   games round_server ''G'' = Some round_game \<and>
   state round_game = Playing \<and>
   map_of (scores round_game) ''Alice'' = Some 10 \<and>
   map_of (players round_game) ''Alice'' = Some \<lparr>websocket = 1, ready = True\<rparr> \<and>
   (\<exists>s' g'. handle_connection 5 ''/ws/G/Alice'' round_server = Ok s' \<and>
      games s' ''G'' = Some g' \<and>
      map_of (players g') ''Alice'' = Some \<lparr>websocket = 5, ready = False\<rparr> \<and>
      map_of (scores g') ''Alice'' = Some 0 \<and> state g' = Playing)"
proof -
  have p: "split_on CHR ''/'' ''/ws/G/Alice'' = ['''', ''ws'', ''G'', ''Alice'']" by simp
  have g: "games round_server ''G'' = Some round_game" by (simp add: round_server_def)
  have a: "''Alice'' \<in> fst ` set (players round_game)" by (simp add: round_game_def)
  have st: "state round_game = Playing" "map_of (scores round_game) ''Alice'' = Some 10"
    "map_of (players round_game) ''Alice'' = Some \<lparr>websocket = 1, ready = True\<rparr>"
    by (simp_all add: round_game_def)
  from rejoin_resets[OF p _ _ _ g a, of 5] p g st show ?thesis by fastforce
qed

subsection \<open>C10: the host's commands in any state\<close>

text \<open>
  C10. The handlers of \<open>start_game\<close> and \<open>play_again\<close> check the sender against the
  host and nothing else. In every reachable state, whatever the lifecycle state of the
  game: a \<open>start_game\<close> or \<open>play_again\<close> from a sender who is not the host changes
  nothing. A \<open>start_game\<close> from the host sets the state to \<open>Playing\<close>, resets the
  question index to 0 and every score to 0, and advances to round 1: the first question
  of the bank becomes the current question, the index becomes 1, \<open>new_question\<close> number
  1 is broadcast, and a timeout is scheduled. A \<open>play_again\<close> from the host sets the
  state to \<open>Lobby\<close>, clears the question, resets the index and every score to 0, keeps
  the players, and broadcasts the game state.
\<close>

theorem host_commands_any_state:
  assumes "run es (init_server ent) = Some s" and "games s gid = Some g"
    and "s1 = handle_message w (Obj (JStr ''start_game'') a) gid name s"
    and "s2 = handle_message w (Obj (JStr ''play_again'') a) gid name s"
  shows "(name \<noteq> host g \<longrightarrow> s1 = s \<and> s2 = s) \<and>
         (name = host g \<longrightarrow>
            (\<exists>g' choices. games s1 gid = Some g' \<and>
               state g' = Playing \<and> question_index g' = 1 \<and>
               current_question g' = Some (load_questions ! 0) \<and>
               players g' = players g \<and> map fst (scores g') = map fst (scores g) \<and>
               (\<forall>n \<in> fst ` set (scores g). map_of (scores g') n = Some 0) \<and>
               outbox s1 = outbox (broadcast (NewQuestion ''awe'' choices 20 1) gid [] s) \<and>
               pending s1 = pending s @ [(now s + 20, TimeoutWake gid)]) \<and>
            (\<exists>g'. games s2 gid = Some g' \<and>
               state g' = Lobby \<and> question_index g' = 0 \<and> current_question g' = None \<and>
               players g' = players g \<and> map fst (scores g') = map fst (scores g) \<and>
               (\<forall>n \<in> fst ` set (scores g). map_of (scores g') n = Some 0) \<and>
               outbox s2 = outbox (broadcast (GameState (map (\<lambda>pd. (fst pd, ready (snd pd))) (players g))
                                       (scores g') Lobby (host g)) gid [] s)))"
proof -
  from assms(1) have "consistent s" by (rule reachable_consistent)
  with assms(2) have qs: "questions g = load_questions"
    by (simp add: consistent_def game_ok_def)
  have other: "name \<noteq> host g \<Longrightarrow> s1 = s \<and> s2 = s"
    using assms(2-4) by (simp add: handle_message_def handle_message_body_def)
  have 1: "s1 = settle (start_game gid s)" if "name = host g"
    using that assms(2,3) by (simp add: handle_message_def handle_message_body_def)
  have 2: "s2 = settle (reset_game gid s)" if "name = host g"
    using that assms(2,4) by (simp add: handle_message_def handle_message_body_def)
  have z: "\<forall>n \<in> fst ` set (scores g). map_of (reset_scores (scores g)) n = Some 0"
    by (simp add: reset_scores_lookup)
  show ?thesis
  proof (intro conjI impI)
    assume "name \<noteq> host g"
    then show "s1 = s" "s2 = s" using other by simp_all
  next
    assume h: "name = host g"
    from start_game_effect[OF assms(2) qs] obtain g' choices where
      "games s1 gid = Some g'" "state g' = Playing" "question_index g' = 1"
      "current_question g' = Some (load_questions ! 0)"
      "players g' = players g" "scores g' = reset_scores (scores g)"
      "outbox s1 = outbox (broadcast (NewQuestion ''awe'' choices 20 1) gid [] s)"
      "pending s1 = pending s @ [(now s + 20, TimeoutWake gid)]"
      unfolding 1[OF h] by blast
    then show "\<exists>g' choices. games s1 gid = Some g' \<and>
               state g' = Playing \<and> question_index g' = 1 \<and>
               current_question g' = Some (load_questions ! 0) \<and>
               players g' = players g \<and> map fst (scores g') = map fst (scores g) \<and>
               (\<forall>n \<in> fst ` set (scores g). map_of (scores g') n = Some 0) \<and>
               outbox s1 = outbox (broadcast (NewQuestion ''awe'' choices 20 1) gid [] s) \<and>
               pending s1 = pending s @ [(now s + 20, TimeoutWake gid)]"
      using z by (intro exI[of _ g'] exI[of _ choices]) simp
    from reset_game_effect[OF assms(2)] obtain g' where
      "games s2 gid = Some g'" "state g' = Lobby" "question_index g' = 0"
      "current_question g' = None"
      "players g' = players g" "scores g' = reset_scores (scores g)"
      "outbox s2 = outbox (broadcast (GameState (map (\<lambda>pd. (fst pd, ready (snd pd))) (players g))
                                  (reset_scores (scores g)) Lobby (host g)) gid [] s)"
      unfolding 2[OF h] by blast
    then show "\<exists>g'. games s2 gid = Some g' \<and>
               state g' = Lobby \<and> question_index g' = 0 \<and> current_question g' = None \<and>
               players g' = players g \<and> map fst (scores g') = map fst (scores g) \<and>
               (\<forall>n \<in> fst ` set (scores g). map_of (scores g') n = Some 0) \<and>
               outbox s2 = outbox (broadcast (GameState (map (\<lambda>pd. (fst pd, ready (snd pd))) (players g))
                                       (scores g') Lobby (host g)) gid [] s)"
      using z by (intro exI[of _ g']) simp
  qed
qed


theorem host_commands_any_state_witness:
  "run scored_trace (init_server zeros) = Some scored_server \<and>
   map_option state (games scored_server ''G'') = Some Playing \<and>
   map_option host (games scored_server ''G'') = Some ''Alice'' \<and>
   map_option scores (games scored_server ''G'') = Some [(''Alice'', 0), (''Bob'', 10)] \<and>
   map_option state (games (handle_message 1 (Obj (JStr ''start_game'') JNull) ''G'' ''Alice''
                              scored_server) ''G'') = Some Playing \<and>
   map_option question_index (games (handle_message 1 (Obj (JStr ''start_game'') JNull) ''G'' ''Alice''
                              scored_server) ''G'') = Some 1 \<and>
   map_option state (games (handle_message 1 (Obj (JStr ''play_again'') JNull) ''G'' ''Alice''
                              scored_server) ''G'') = Some Lobby \<and>
   handle_message 2 (Obj (JStr ''start_game'') JNull) ''G'' ''Bob'' scored_server = scored_server"
proof -
  have r: "run scored_trace (init_server zeros) = Some scored_server"
    by (simp add: scored_server_def scored_trace_def exec_defs)
  have e: "map_option state (games scored_server ''G'') = Some Playing"
    "map_option host (games scored_server ''G'') = Some ''Alice''"
    "map_option scores (games scored_server ''G'') = Some [(''Alice'', 0), (''Bob'', 10)]"
    by (simp_all add: scored_server_def scored_trace_def exec_defs)
  then obtain g where g: "games scored_server ''G'' = Some g" and h: "host g = ''Alice''" by auto
  note a = host_commands_any_state[where w = 1 and a = JNull and name = "''Alice''", OF r g refl refl]
  note b = host_commands_any_state[where w = 2 and a = JNull and name = "''Bob''", OF r g refl refl]
  from a h have 1: "map_option state (games (handle_message 1 (Obj (JStr ''start_game'') JNull) ''G'' ''Alice''
                              scored_server) ''G'') = Some Playing"
    "map_option question_index (games (handle_message 1 (Obj (JStr ''start_game'') JNull) ''G'' ''Alice''
                              scored_server) ''G'') = Some 1"
    "map_option state (games (handle_message 1 (Obj (JStr ''play_again'') JNull) ''G'' ''Alice''
                              scored_server) ''G'') = Some Lobby"
    by auto
  from b h have 2: "handle_message 2 (Obj (JStr ''start_game'') JNull) ''G'' ''Bob'' scored_server = scored_server"
    by simp
  from r e 1 2 show ?thesis by simp
qed

end
